theory Spec2Isabelle
  imports Complex_Main "HOL-Library.Word"
begin

unbundle bit_operations_syntax

section \<open>The WebGPU objects the program handles\<close>

text \<open>
  The repository holds successive variants of one browser program, a Game of Life whose
  state lives in two GPU storage buffers. Two variants have a simulation step and are
  modelled here: the class-based one (\<^verbatim>\<open>Grid\<close>, \<^verbatim>\<open>Buffers\<close>, \<^verbatim>\<open>PipelineFactory\<close>,
  \<^verbatim>\<open>Simulation\<close>, \<^verbatim>\<open>Renderer\<close>, \<^verbatim>\<open>Engine\<close>; file \<^verbatim>\<open>part_000\<close>), whose definitions keep
  the names \<open>Class_method\<close>, and the earlier one made of top-level functions and one
  \<^verbatim>\<open>Renderer\<close> class (file \<^verbatim>\<open>part_001\<close>), whose class is written \<open>Renderer1\<close> here and whose
  other names carry a trailing \<open>1\<close> only where they would clash.

  Typed-array elements are 32-bit unsigned integers or 32-bit floats. A float is kept as
  the rational it was computed from; the rounding to single precision is not modelled.
\<close>

datatype val = U32 "32 word" | F32 rat

text \<open>The flag constants of \<^verbatim>\<open>GPUBufferUsage\<close> and \<^verbatim>\<open>GPUShaderStage\<close>.\<close>

definition GPUBufferUsage_COPY_DST :: nat where "GPUBufferUsage_COPY_DST = 8"
definition GPUBufferUsage_VERTEX :: nat where "GPUBufferUsage_VERTEX = 32"
definition GPUBufferUsage_UNIFORM :: nat where "GPUBufferUsage_UNIFORM = 64"
definition GPUBufferUsage_STORAGE :: nat where "GPUBufferUsage_STORAGE = 128"

definition GPUShaderStage_VERTEX :: nat where "GPUShaderStage_VERTEX = 1"
definition GPUShaderStage_FRAGMENT :: nat where "GPUShaderStage_FRAGMENT = 2"
definition GPUShaderStage_COMPUTE :: nat where "GPUShaderStage_COMPUTE = 4"

datatype buffer_type = Uniform | ReadOnlyStorage | Storage

record layout_entry =
  binding :: nat
  visibility :: nat
  buffer :: buffer_type

record bind_group_layout =
  bgl_label :: string
  bgl_entries :: "layout_entry list"

text \<open>
  A bind group entry names a buffer by its identity. \<open>None\<close> stands for JavaScript's
  \<^verbatim>\<open>undefined\<close>, which an array read out of range yields; WebGPU raises a TypeError when
  it is handed one, and the theorems below show that the program never produces it.
\<close>

record bind_group =
  bg_label :: string
  bg_layout :: bind_group_layout
  bg_entries :: "(nat \<times> nat option) list"

record pipeline_layout =
  pl_label :: string
  bindGroupLayouts :: "bind_group_layout list"

record compute_pipeline =
  cp_label :: string
  cp_layout :: pipeline_layout
  cp_module :: string
  cp_entryPoint :: string

record render_pipeline =
  rp_label :: string
  rp_layout :: pipeline_layout
  rp_module :: string
  rp_vertexEntry :: string
  rp_arrayStride :: nat
  rp_fragmentEntry :: string

text \<open>
  A recorded pass. \<open>ComputePass pl bg x y\<close> is \<^verbatim>\<open>setPipeline(pl); setBindGroup(0, bg);
  dispatchWorkgroups(x, y)\<close>; \<open>RenderPass pl vb bg n m\<close> is \<^verbatim>\<open>setPipeline(pl);
  setVertexBuffer(0, vb); setBindGroup(0, bg); draw(n, m)\<close>.
\<close>

datatype gpu_command =
    ComputePass compute_pipeline "bind_group option" nat nat
  | RenderPass render_pipeline nat "bind_group option" nat nat

type_synonym encoder = "gpu_command list"

text \<open>The calls the program makes on the device, its queue and the browser, in order.\<close>

datatype action =
    CreateBuffer nat string nat nat
  | WriteBuffer nat nat "val list"
  | Encode gpu_command
  | Submit "gpu_command list"
  | RequestAnimationFrame nat nat
  | CancelAnimationFrame nat
  | SetFpsText nat

text \<open>
  What the program sees of the browser and the device: the next buffer identity, the
  animation frame requests that wait (request id and the \<^verbatim>\<open>Renderer\<close> object whose
  \<^verbatim>\<open>render\<close> was passed), the next request id, the future results of \<^verbatim>\<open>Math.random()\<close>,
  and the trace of calls made so far.
\<close>

record platform =
  next_buffer :: nat
  raf_pending :: "(nat \<times> nat) list"
  raf_next :: nat
  rng :: "nat \<Rightarrow> rat"
  calls :: "action list"

definition emit :: "action \<Rightarrow> platform \<Rightarrow> platform" where
  "emit a p = p\<lparr>calls := calls p @ [a]\<rparr>"

definition device_createBuffer :: "string \<Rightarrow> nat \<Rightarrow> nat \<Rightarrow> platform \<Rightarrow> nat \<times> platform" where
  "device_createBuffer lbl bytes usage p =
     (next_buffer p,
      emit (CreateBuffer (next_buffer p) lbl bytes usage) (p\<lparr>next_buffer := Suc (next_buffer p)\<rparr>))"

definition queue_writeBuffer :: "nat \<Rightarrow> nat \<Rightarrow> val list \<Rightarrow> platform \<Rightarrow> platform" where
  "queue_writeBuffer b off data p = emit (WriteBuffer b off data) p"

definition queue_submit :: "gpu_command list \<Rightarrow> platform \<Rightarrow> platform" where
  "queue_submit cmds p = emit (Submit cmds) p"

definition encode_pass :: "gpu_command \<Rightarrow> encoder \<Rightarrow> platform \<Rightarrow> encoder \<times> platform" where
  "encode_pass c enc p = (enc @ [c], emit (Encode c) p)"

definition requestAnimationFrame :: "nat \<Rightarrow> platform \<Rightarrow> nat \<times> platform" where
  "requestAnimationFrame ref p =
     (raf_next p,
      emit (RequestAnimationFrame (raf_next p) ref)
        (p\<lparr>raf_pending := raf_pending p @ [(raf_next p, ref)], raf_next := Suc (raf_next p)\<rparr>))"

definition cancelAnimationFrame :: "nat \<Rightarrow> platform \<Rightarrow> platform" where
  "cancelAnimationFrame i p =
     emit (CancelAnimationFrame i) (p\<lparr>raf_pending := filter (\<lambda>(j, ref). j \<noteq> i) (raf_pending p)\<rparr>)"

definition Math_random :: "platform \<Rightarrow> rat \<times> platform" where
  "Math_random p = (rng p 0, p\<lparr>rng := (\<lambda>i. rng p (Suc i))\<rparr>)"

definition byteLength :: "val list \<Rightarrow> nat" where
  "byteLength data = 4 * length data"

definition js_index :: "'a list \<Rightarrow> nat \<Rightarrow> 'a option" where
  "js_index xs i = (if i < length xs then Some (xs ! i) else None)"

text \<open>
  The literal \<^verbatim>\<open>0.6\<close> is the double nearest to six tenths, and doubles compare exactly, so
  \<^verbatim>\<open>Math.random() > 0.6\<close> is a comparison of rationals.
\<close>

definition double_0_6 :: rat where
  "double_0_6 = 5404319552844595 / 9007199254740992"

definition random_cell :: "rat \<Rightarrow> val" where
  "random_cell x = (if x > double_0_6 then U32 1 else U32 0)"

text \<open>
  \<^verbatim>\<open>new Uint32Array(n).map(() => Math.random() > 0.6 ? 1 : 0)\<close>, and the loop of the
  earlier variant that fills the array cell by cell: one call of \<^verbatim>\<open>Math.random\<close> per
  cell, from index 0 upwards.
\<close>

fun random_fill :: "nat \<Rightarrow> platform \<Rightarrow> val list \<times> platform" where
  "random_fill 0 p = ([], p)"
| "random_fill (Suc n) p =
     (let (x, p1) = Math_random p;
          (xs, p2) = random_fill n p1
      in (random_cell x # xs, p2))"

section \<open>The class-based variant\<close>

subsection \<open>Grid, Buffers, PipelineFactory\<close>

record grid =
  grid_size :: nat
  uniformBuffer :: nat

definition Grid_new :: "nat \<Rightarrow> platform \<Rightarrow> grid \<times> platform" where
  "Grid_new sz p =
     (let data = [F32 (of_nat sz), F32 (of_nat sz)];
          (b, p1) = device_createBuffer ''Grid Uniform'' (byteLength data)
                      (GPUBufferUsage_UNIFORM OR GPUBufferUsage_COPY_DST) p;
          p2 = queue_writeBuffer b 0 data p1
      in (\<lparr>grid_size = sz, uniformBuffer = b\<rparr>, p2))"

definition Buffers_createTimeBuffer :: "platform \<Rightarrow> nat \<times> platform" where
  "Buffers_createTimeBuffer p =
     device_createBuffer ''Time Uniform'' 4 (GPUBufferUsage_UNIFORM OR GPUBufferUsage_COPY_DST) p"

definition cell_vertices :: "val list" where
  "cell_vertices = map F32
     [- (8 / 10), - (8 / 10), 8 / 10, - (8 / 10), 8 / 10, 8 / 10,
      - (8 / 10), - (8 / 10), 8 / 10, 8 / 10, - (8 / 10), 8 / 10]"

definition Buffers_createVertexBuffer :: "platform \<Rightarrow> (nat \<times> val list) \<times> platform" where
  "Buffers_createVertexBuffer p =
     (let data = cell_vertices;
          (b, p1) = device_createBuffer ''Cell vertices'' (byteLength data)
                      (GPUBufferUsage_VERTEX OR GPUBufferUsage_COPY_DST) p;
          p2 = queue_writeBuffer b 0 data p1
      in ((b, data), p2))"

definition Buffers_createStateBuffers :: "nat \<Rightarrow> platform \<Rightarrow> nat list \<times> platform" where
  "Buffers_createStateBuffers sz p =
     (let (data, p1) = random_fill (sz * sz) p;
          usage = GPUBufferUsage_STORAGE OR GPUBufferUsage_COPY_DST;
          (a, p2) = device_createBuffer ''State A'' (byteLength data) usage p1;
          (b, p3) = device_createBuffer ''State B'' (byteLength data) usage p2;
          buffers = [a, b];
          p4 = queue_writeBuffer (buffers ! 0) 0 data p3;
          p5 = queue_writeBuffer (buffers ! 1) 0 data p4
      in (buffers, p5))"

definition PipelineFactory_createBindGroupLayout :: bind_group_layout where
  "PipelineFactory_createBindGroupLayout =
     \<lparr>bgl_label = ''BindGroupLayout'',
      bgl_entries =
        [\<lparr>binding = 0, visibility = 7, buffer = Uniform\<rparr>,
         \<lparr>binding = 1, visibility = 2, buffer = Uniform\<rparr>,
         \<lparr>binding = 2, visibility = 5, buffer = ReadOnlyStorage\<rparr>,
         \<lparr>binding = 3, visibility = 4, buffer = Storage\<rparr>]\<rparr>"

text \<open>
  The shader code a pipeline is made from is named by the label of its module; the texture
  format of the canvas, which the browser chooses, is left out.
\<close>

definition PipelineFactory_createPipelineLayout :: "bind_group_layout \<Rightarrow> pipeline_layout" where
  "PipelineFactory_createPipelineLayout layout = \<lparr>pl_label = [], bindGroupLayouts = [layout]\<rparr>"

definition PipelineFactory_createCompute :: "pipeline_layout \<Rightarrow> compute_pipeline" where
  "PipelineFactory_createCompute layout =
     \<lparr>cp_label = ''Simulation pipeline'', cp_layout = layout,
      cp_module = ''Compute shader'', cp_entryPoint = ''computeMain''\<rparr>"

definition PipelineFactory_createRender :: "pipeline_layout \<Rightarrow> render_pipeline" where
  "PipelineFactory_createRender layout =
     \<lparr>rp_label = ''Cell pipeline'', rp_layout = layout, rp_module = ''Cell shader'',
      rp_vertexEntry = ''vertexMain'', rp_arrayStride = 8, rp_fragmentEntry = ''fragmentMain''\<rparr>"

subsection \<open>Simulation\<close>

record simulation =
  bindGroups :: "bind_group list"
  stateBuffers :: "nat list"
  sim_time :: nat

definition Simulation_createBindGroups ::
  "nat \<Rightarrow> nat list \<Rightarrow> grid \<Rightarrow> bind_group_layout \<Rightarrow> bind_group list" where
  "Simulation_createBindGroups tm state g layout =
     [\<lparr>bg_label = [], bg_layout = layout,
       bg_entries = [(0, Some (uniformBuffer g)), (1, Some tm),
                     (2, js_index state 0), (3, js_index state 1)]\<rparr>,
      \<lparr>bg_label = [], bg_layout = layout,
       bg_entries = [(0, Some (uniformBuffer g)), (1, Some tm),
                     (2, js_index state 1), (3, js_index state 0)]\<rparr>]"

definition Simulation_new ::
  "grid \<Rightarrow> nat \<Rightarrow> nat list \<Rightarrow> bind_group_layout \<Rightarrow> simulation" where
  "Simulation_new g tm state layout =
     \<lparr>bindGroups = Simulation_createBindGroups tm state g layout,
      stateBuffers = state, sim_time = tm\<rparr>"

definition Simulation_reset :: "nat \<Rightarrow> simulation \<Rightarrow> platform \<Rightarrow> platform" where
  "Simulation_reset sz sim p =
     (let (data, p1) = random_fill (sz * sz) p
      in fold (\<lambda>b. queue_writeBuffer b 0 data) (stateBuffers sim) p1)"

subsection \<open>Renderer\<close>

text \<open>
  The module variables \<^verbatim>\<open>GRID_SIZE\<close> and \<^verbatim>\<open>COMPUTE_MS_INTERVAL\<close>, which the sliders assign
  and the methods read at each call. Grid sizes are natural numbers and timestamps whole
  milliseconds: on such values the double arithmetic of the source is exact.
\<close>

record globals =
  GRID_SIZE :: nat
  COMPUTE_MS_INTERVAL :: int

text \<open>
  A \<^verbatim>\<open>Renderer\<close> object. \<open>self\<close> is its identity, which \<^verbatim>\<open>this.render.bind(this)\<close> hands to
  the browser; the device and the canvas context, one of each, are left out.
\<close>

record renderer =
  self :: nat
  lastFrame :: int
  frameCount :: nat
  fps :: nat
  bindGroupIndex :: nat
  lastSwitch :: int
  renderPipeline :: render_pipeline
  computePipeline :: compute_pipeline
  vertexBuffer :: nat
  vertices :: "val list"
  simulation :: simulation
  timeBuffer :: nat

definition Renderer_new ::
  "nat \<Rightarrow> render_pipeline \<Rightarrow> compute_pipeline \<Rightarrow> nat \<Rightarrow> val list \<Rightarrow> simulation \<Rightarrow> nat \<Rightarrow> renderer" where
  "Renderer_new ref rp cp vb vs sim tb =
     \<lparr>self = ref, lastFrame = 0, frameCount = 0, fps = 0, bindGroupIndex = 0, lastSwitch = 0,
      renderPipeline = rp, computePipeline = cp, vertexBuffer = vb, vertices = vs,
      simulation = sim, timeBuffer = tb\<rparr>"

definition Renderer_updateFPS :: "int \<Rightarrow> renderer \<times> platform \<Rightarrow> renderer \<times> platform" where
  "Renderer_updateFPS timeMs = (\<lambda>(r, p).
     (let r1 = (if lastFrame r = 0 then r\<lparr>lastFrame := timeMs\<rparr> else r);
          r2 = r1\<lparr>frameCount := frameCount r1 + 1\<rparr>
      in if timeMs - lastFrame r2 \<ge> 1000
         then (r2\<lparr>fps := frameCount r2, frameCount := 0, lastFrame := timeMs\<rparr>,
               emit (SetFpsText (frameCount r2)) p)
         else (r2, p)))"

definition Renderer_updateTimeBuffer :: "int \<Rightarrow> renderer \<Rightarrow> platform \<Rightarrow> platform" where
  "Renderer_updateTimeBuffer timeMs r p =
     (let seconds = of_int timeMs / 1000
      in queue_writeBuffer (timeBuffer r) 0 [F32 seconds] p)"

definition Math_ceil :: "rat \<Rightarrow> nat" where
  "Math_ceil x = nat \<lceil>x\<rceil>"

definition Renderer_runComputePass ::
  "'a globals_scheme \<Rightarrow> encoder \<Rightarrow> int \<Rightarrow> renderer \<times> platform \<Rightarrow> renderer \<times> encoder \<times> platform" where
  "Renderer_runComputePass g enc timeMs = (\<lambda>(r, p).
     (let r1 = (if timeMs - lastSwitch r \<ge> COMPUTE_MS_INTERVAL g
                then r\<lparr>bindGroupIndex := (bindGroupIndex r + 1) mod 2, lastSwitch := timeMs\<rparr>
                else r);
          pass = ComputePass (computePipeline r1)
                   (js_index (bindGroups (simulation r1)) (bindGroupIndex r1))
                   (Math_ceil (of_nat (GRID_SIZE g) / 8)) (Math_ceil (of_nat (GRID_SIZE g) / 8));
          (enc1, p1) = encode_pass pass enc p
      in (r1, enc1, p1)))"

text \<open>
  \<^verbatim>\<open>this.vertices.length / 2\<close> is a whole number, the array holding twelve coordinates.
\<close>

definition Renderer_runRenderPass ::
  "'a globals_scheme \<Rightarrow> encoder \<Rightarrow> renderer \<Rightarrow> platform \<Rightarrow> encoder \<times> platform" where
  "Renderer_runRenderPass g enc r p =
     encode_pass
       (RenderPass (renderPipeline r) (vertexBuffer r)
          (js_index (bindGroups (simulation r)) (bindGroupIndex r))
          (length (vertices r) div 2) (GRID_SIZE g * GRID_SIZE g))
       enc p"

definition Renderer_render ::
  "'a globals_scheme \<Rightarrow> int \<Rightarrow> renderer \<times> platform \<Rightarrow> renderer \<times> platform" where
  "Renderer_render g timeMs rp =
     (let (r1, p1) = Renderer_updateFPS timeMs rp;
          encoder = [];
          (r2, enc1, p2) = Renderer_runComputePass g encoder timeMs (r1, p1);
          (enc2, p3) = Renderer_runRenderPass g enc1 r2 p2;
          p4 = Renderer_updateTimeBuffer timeMs r2 p3;
          p5 = queue_submit enc2 p4;
          (i, p6) = requestAnimationFrame (self r2) p5
      in (r2, p6))"

subsection \<open>Engine and the user's controls\<close>

text \<open>
  \<^verbatim>\<open>init\<close> is asynchronous. A call runs up to the \<^verbatim>\<open>await\<close> of the two pipelines, which
  wait for the shader files to be imported, and returns; the rest runs when the imports
  have arrived. In between the call keeps its local variables, and the browser may deliver
  frames, clicks and slider inputs.
\<close>

record init_locals =
  il_grid :: grid
  il_timeBuffer :: nat
  il_vertexBuffer :: nat
  il_vertices :: "val list"
  il_stateBuffers :: "nat list"
  il_layout :: bind_group_layout
  il_pipelineLayout :: pipeline_layout

text \<open>
  The module variables, the fields of the one \<^verbatim>\<open>Engine\<close> object, the \<^verbatim>\<open>Renderer\<close>
  objects made so far (a reference to a \<^verbatim>\<open>Renderer\<close> is its position in \<open>renderers\<close>), and
  the calls of \<^verbatim>\<open>init\<close> that wait at their \<^verbatim>\<open>await\<close>, oldest first. The fields
  \<^verbatim>\<open>simulation\<close> and \<^verbatim>\<open>renderer\<close> are \<^verbatim>\<open>undefined\<close> until a call of \<^verbatim>\<open>init\<close> has resumed.
\<close>

record app = globals +
  engine_simulation :: "simulation option"
  engine_renderer :: "nat option"
  animationFrameId :: "nat option"
  renderers :: "renderer list"
  awaiting :: "init_locals list"

definition Engine_stopRendering :: "app \<times> platform \<Rightarrow> app \<times> platform" where
  "Engine_stopRendering = (\<lambda>(a, p).
     (case animationFrameId a of
        Some i \<Rightarrow> (a\<lparr>animationFrameId := None\<rparr>, cancelAnimationFrame i p)
      | None \<Rightarrow> (a, p)))"

text \<open>A call of \<^verbatim>\<open>init\<close>, up to its \<^verbatim>\<open>await\<close>.\<close>

definition Engine_init :: "nat \<Rightarrow> app \<times> platform \<Rightarrow> app \<times> platform" where
  "Engine_init gridSize = (\<lambda>(a, p).
     (let (g, p1) = Grid_new gridSize p;
          (tb, p2) = Buffers_createTimeBuffer p1;
          ((vb, vs), p3) = Buffers_createVertexBuffer p2;
          (state, p4) = Buffers_createStateBuffers gridSize p3;
          layout = PipelineFactory_createBindGroupLayout;
          pipelineLayout = PipelineFactory_createPipelineLayout layout
      in (a\<lparr>awaiting := awaiting a @
               [\<lparr>il_grid = g, il_timeBuffer = tb, il_vertexBuffer = vb, il_vertices = vs,
                 il_stateBuffers = state, il_layout = layout,
                 il_pipelineLayout = pipelineLayout\<rparr>]\<rparr>, p4)))"

text \<open>
  The rest of that call, run with the module and the platform as they are when the
  imports have arrived.
\<close>

definition Engine_init_resumed :: "init_locals \<Rightarrow> app \<times> platform \<Rightarrow> app \<times> platform" where
  "Engine_init_resumed l = (\<lambda>(a, p).
     (let rp = PipelineFactory_createRender (il_pipelineLayout l);
          cp = PipelineFactory_createCompute (il_pipelineLayout l);
          sim = Simulation_new (il_grid l) (il_timeBuffer l) (il_stateBuffers l) (il_layout l);
          ref = length (renderers a);
          r = Renderer_new ref rp cp (il_vertexBuffer l) (il_vertices l) sim (il_timeBuffer l);
          (i, p1) = requestAnimationFrame ref p
      in (a\<lparr>engine_simulation := Some sim, engine_renderer := Some ref,
             animationFrameId := Some i, renderers := renderers a @ [r]\<rparr>, p1)))"

text \<open>
  The state of the module when it is loaded, and \<^verbatim>\<open>Engine.start\<close> from the point where the
  device and the canvas have been obtained (getting them is outside the model) to its
  end: it calls \<^verbatim>\<open>init\<close> without awaiting it and registers the handlers of the reset
  button and of the grid-size slider, so that it returns with that call of \<^verbatim>\<open>init\<close>
  waiting and the handlers in place.
\<close>

definition module_init :: app where
  "module_init =
     \<lparr>GRID_SIZE = 64, COMPUTE_MS_INTERVAL = 100, engine_simulation = None,
      engine_renderer = None, animationFrameId = None, renderers = [], awaiting = []\<rparr>"

definition platform_init :: "(nat \<Rightarrow> rat) \<Rightarrow> platform" where
  "platform_init draws =
     \<lparr>next_buffer = 0, raf_pending = [], raf_next = 1, rng = draws, calls = []\<rparr>"

definition Engine_start :: "(nat \<Rightarrow> rat) \<Rightarrow> app \<times> platform" where
  "Engine_start draws = Engine_init (GRID_SIZE module_init) (module_init, platform_init draws)"

text \<open>
  What the browser delivers: an animation frame with its timestamp, a click on the reset
  button, an input on the interval slider, the (debounced) callback of the grid-size
  slider, and the arrival of the imports that the oldest waiting call of \<^verbatim>\<open>init\<close> awaits
  (the calls await the same two imports, so they resume in the order they were made). An
  animation frame runs the callbacks that were waiting when it began; requests made while
  they run wait for the next frame. A reset click while \<^verbatim>\<open>this.simulation\<close> is \<^verbatim>\<open>undefined\<close>
  raises a \<^verbatim>\<open>TypeError\<close> in the handler, which changes nothing.
\<close>

datatype event =
    AnimationFrame int
  | ResetClick
  | ComputeIntervalInput int
  | GridSizeInput nat
  | InitResumes

definition run_callback :: "int \<Rightarrow> nat \<times> nat \<Rightarrow> app \<times> platform \<Rightarrow> app \<times> platform" where
  "run_callback timeMs = (\<lambda>(i, ref) (a, p).
     (case js_index (renderers a) ref of
        None \<Rightarrow> (a, p)
      | Some r \<Rightarrow>
          (let (r', p') = Renderer_render a timeMs (r, p)
           in (a\<lparr>renderers := (renderers a)[ref := r']\<rparr>, p'))))"

fun handle :: "event \<Rightarrow> app \<times> platform \<Rightarrow> app \<times> platform" where
  "handle (AnimationFrame timeMs) (a, p) =
     fold (run_callback timeMs) (raf_pending p) (a, p\<lparr>raf_pending := []\<rparr>)"
| "handle ResetClick (a, p) =
     (case engine_simulation a of
        None \<Rightarrow> (a, p)
      | Some sim \<Rightarrow> (a, Simulation_reset (GRID_SIZE a) sim p))"
| "handle (ComputeIntervalInput v) (a, p) = (a\<lparr>COMPUTE_MS_INTERVAL := v\<rparr>, p)"
| "handle (GridSizeInput newSize) (a, p) =
     (let (a1, p1) = Engine_stopRendering (a, p);
          a2 = a1\<lparr>GRID_SIZE := newSize\<rparr>
      in Engine_init newSize (a2, p1))"
| "handle InitResumes (a, p) =
     (case awaiting a of
        [] \<Rightarrow> (a, p)
      | l # ls \<Rightarrow> Engine_init_resumed l (a\<lparr>awaiting := ls\<rparr>, p))"

definition run :: "event list \<Rightarrow> app \<times> platform \<Rightarrow> app \<times> platform" where
  "run evs w = fold handle evs w"

section \<open>The earlier variant\<close>

text \<open>
  Here \<^verbatim>\<open>GRID_SIZE\<close> is a constant, there is no reset and no resizing, and the one
  \<^verbatim>\<open>Renderer\<close> holds the bind groups itself.
\<close>

definition GRID_SIZE1 :: nat where
  "GRID_SIZE1 = 64"

definition createGridUniformBuffer :: "platform \<Rightarrow> nat \<times> platform" where
  "createGridUniformBuffer p =
     (let gridUniformArray = [F32 (of_nat GRID_SIZE1), F32 (of_nat GRID_SIZE1)];
          (b, p1) = device_createBuffer ''Grid Uniforms'' (byteLength gridUniformArray)
                      (GPUBufferUsage_UNIFORM OR GPUBufferUsage_COPY_DST) p;
          p2 = queue_writeBuffer b 0 gridUniformArray p1
      in (b, p2))"

definition createTimeUniformBuffer :: "platform \<Rightarrow> nat \<times> platform" where
  "createTimeUniformBuffer p =
     device_createBuffer ''Time Uniform'' 4 (GPUBufferUsage_UNIFORM OR GPUBufferUsage_COPY_DST) p"

definition createStateStorageBuffers :: "platform \<Rightarrow> nat list \<times> platform" where
  "createStateStorageBuffers p =
     (let bytes = 4 * (GRID_SIZE1 * GRID_SIZE1);
          usage = GPUBufferUsage_STORAGE OR GPUBufferUsage_COPY_DST;
          (a, p1) = device_createBuffer ''Cell State A'' bytes usage p;
          (b, p2) = device_createBuffer ''Cell State B'' bytes usage p1;
          cellStateStorage = [a, b];
          (cellStateArray, p3) = random_fill (GRID_SIZE1 * GRID_SIZE1) p2;
          p4 = queue_writeBuffer (cellStateStorage ! 0) 0 cellStateArray p3
      in (cellStateStorage, p4))"

definition createBindGroupLayout :: bind_group_layout where
  "createBindGroupLayout =
     \<lparr>bgl_label = ''Cell Bind Group Layout'',
      bgl_entries =
        [\<lparr>binding = 0,
          visibility = GPUShaderStage_FRAGMENT OR GPUShaderStage_VERTEX OR GPUShaderStage_COMPUTE,
          buffer = Uniform\<rparr>,
         \<lparr>binding = 1, visibility = GPUShaderStage_FRAGMENT, buffer = Uniform\<rparr>,
         \<lparr>binding = 2, visibility = GPUShaderStage_VERTEX OR GPUShaderStage_COMPUTE,
          buffer = ReadOnlyStorage\<rparr>,
         \<lparr>binding = 3, visibility = GPUShaderStage_COMPUTE, buffer = Storage\<rparr>]\<rparr>"

definition createBindGroups ::
  "nat \<Rightarrow> nat \<Rightarrow> nat list \<Rightarrow> bind_group_layout \<Rightarrow> bind_group list" where
  "createBindGroups gridUniformBuffer timeUniformBuffer cellStateStorage bindGroupLayout =
     [\<lparr>bg_label = ''Cell renderer bind group A'', bg_layout = bindGroupLayout,
       bg_entries = [(0, Some gridUniformBuffer), (1, Some timeUniformBuffer),
                     (2, js_index cellStateStorage 0), (3, js_index cellStateStorage 1)]\<rparr>,
      \<lparr>bg_label = ''Cell updater bind group B'', bg_layout = bindGroupLayout,
       bg_entries = [(0, Some gridUniformBuffer), (1, Some timeUniformBuffer),
                     (2, js_index cellStateStorage 1), (3, js_index cellStateStorage 0)]\<rparr>]"

definition createPipelineLayout :: "bind_group_layout \<Rightarrow> pipeline_layout" where
  "createPipelineLayout bindGroupLayout =
     \<lparr>pl_label = ''Cell Pipeline Layout'', bindGroupLayouts = [bindGroupLayout]\<rparr>"

definition createComputePipeline :: "pipeline_layout \<Rightarrow> compute_pipeline" where
  "createComputePipeline pipelineLayout =
     \<lparr>cp_label = ''Simulation pipeline'', cp_layout = pipelineLayout,
      cp_module = ''Game of Life simulation shader'', cp_entryPoint = ''computeMain''\<rparr>"

definition createCellPipeline :: "pipeline_layout \<Rightarrow> render_pipeline" where
  "createCellPipeline pipelineLayout =
     \<lparr>rp_label = ''Cell pipeline'', rp_layout = pipelineLayout, rp_module = ''Cell shader'',
      rp_vertexEntry = ''vertexMain'', rp_arrayStride = 8, rp_fragmentEntry = ''fragmentMain''\<rparr>"

definition createVertexBuffer :: "platform \<Rightarrow> nat \<times> platform" where
  "createVertexBuffer p =
     (let vs = cell_vertices;
          (b, p1) = device_createBuffer ''Cell vertices'' (byteLength vs)
                      (GPUBufferUsage_VERTEX OR GPUBufferUsage_COPY_DST) p;
          p2 = queue_writeBuffer b 0 vs p1
      in (b, p2))"

record renderer1 =
  lastFrameTime :: int
  frameCount1 :: nat
  fps1 :: nat
  bindGroupIndex1 :: nat
  lastBindGroupSwitchTime :: int
  cellPipeline :: render_pipeline
  simulationPipeline :: compute_pipeline
  vertexBuffer1 :: nat
  bindGroups1 :: "bind_group list"
  timeBuffer1 :: nat
  vertices1 :: "val list"

definition Renderer1_new ::
  "render_pipeline \<Rightarrow> compute_pipeline \<Rightarrow> nat \<Rightarrow> bind_group list \<Rightarrow> nat \<Rightarrow> val list \<Rightarrow> renderer1" where
  "Renderer1_new rp cp vb bgs tb vs =
     \<lparr>lastFrameTime = 0, frameCount1 = 0, fps1 = 0, bindGroupIndex1 = 0,
      lastBindGroupSwitchTime = 0, cellPipeline = rp, simulationPipeline = cp,
      vertexBuffer1 = vb, bindGroups1 = bgs, timeBuffer1 = tb, vertices1 = vs\<rparr>"

definition Renderer1_updateFpsCount :: "int \<Rightarrow> renderer1 \<times> platform \<Rightarrow> renderer1 \<times> platform" where
  "Renderer1_updateFpsCount timeMs = (\<lambda>(r, p).
     (let r1 = (if lastFrameTime r = 0 then r\<lparr>lastFrameTime := timeMs\<rparr> else r);
          r2 = r1\<lparr>frameCount1 := frameCount1 r1 + 1\<rparr>
      in if timeMs - lastFrameTime r2 \<ge> 1000
         then (r2\<lparr>fps1 := frameCount1 r2, frameCount1 := 0, lastFrameTime := timeMs\<rparr>,
               emit (SetFpsText (frameCount1 r2)) p)
         else (r2, p)))"

text \<open>
  The variable \<^verbatim>\<open>COMPUTE_MS_INTERVAL\<close> is the first argument. The array of bind groups
  always has two elements, so the remainder is never taken by zero.
\<close>

definition Renderer1_updateBindGroupIndex :: "int \<Rightarrow> int \<Rightarrow> renderer1 \<Rightarrow> renderer1" where
  "Renderer1_updateBindGroupIndex interval timeMs r =
     (if timeMs - lastBindGroupSwitchTime r \<ge> interval
      then r\<lparr>bindGroupIndex1 := (bindGroupIndex1 r + 1) mod length (bindGroups1 r),
             lastBindGroupSwitchTime := timeMs\<rparr>
      else r)"

definition Renderer1_render :: "int \<Rightarrow> int \<Rightarrow> renderer1 \<times> platform \<Rightarrow> renderer1 \<times> platform" where
  "Renderer1_render interval timeMs = (\<lambda>(r, p).
     (let encoder = [];
          workgroupCount = Math_ceil (of_nat GRID_SIZE1 / 8);
          (enc1, p1) = encode_pass
             (ComputePass (simulationPipeline r) (js_index (bindGroups1 r) (bindGroupIndex1 r))
                workgroupCount workgroupCount) encoder p;
          tm = of_int timeMs / 1000;
          (r1, p2) = Renderer1_updateFpsCount timeMs (r, p1);
          p3 = queue_writeBuffer (timeBuffer1 r1) 0 [F32 tm] p2;
          r2 = Renderer1_updateBindGroupIndex interval timeMs r1;
          (enc2, p4) = encode_pass
             (RenderPass (cellPipeline r2) (vertexBuffer1 r2)
                (js_index (bindGroups1 r2) (bindGroupIndex1 r2))
                (length (vertices1 r2) div 2) (GRID_SIZE1 * GRID_SIZE1)) enc1 p3;
          p5 = queue_submit enc2 p4;
          (i, p6) = requestAnimationFrame 0 p5
      in (r2, p6)))"

text \<open>The function \<^verbatim>\<open>init\<close> of the earlier variant, again once device and canvas are there.\<close>

definition init1 :: "(nat \<Rightarrow> rat) \<Rightarrow> renderer1 \<times> platform" where
  "init1 draws =
     (let p = platform_init draws;
          (gridUniformBuffer, p1) = createGridUniformBuffer p;
          (tb, p2) = createTimeUniformBuffer p1;
          (cellStateStorage, p3) = createStateStorageBuffers p2;
          bindGroupLayout = createBindGroupLayout;
          bgs = createBindGroups gridUniformBuffer tb cellStateStorage bindGroupLayout;
          pipelineLayout = createPipelineLayout bindGroupLayout;
          cellPl = createCellPipeline pipelineLayout;
          simulationPl = createComputePipeline pipelineLayout;
          (vb, p4) = createVertexBuffer p3;
          vs = cell_vertices;
          r = Renderer1_new cellPl simulationPl vb bgs tb vs;
          (i, p5) = requestAnimationFrame 0 p4
      in (r, p5))"

text \<open>A run of the earlier variant: frames, each with the interval the slider shows then.\<close>

fun frames1 :: "(int \<times> int) list \<Rightarrow> renderer1 \<times> platform \<Rightarrow> renderer1 \<times> platform" where
  "frames1 [] w = w"
| "frames1 ((interval, timeMs) # fs) (r, p) =
     frames1 fs (Renderer1_render interval timeMs (r, p\<lparr>raf_pending := []\<rparr>))"

section \<open>What the device does with the calls\<close>

text \<open>
  The contents of the buffers, element by element. A new buffer is filled with zero
  bits; \<^verbatim>\<open>writeBuffer\<close> replaces a range, and is refused (a validation error, nothing
  written) when the data passes the end of the buffer.
\<close>

type_synonym store = "nat \<Rightarrow> val list option"

definition zeroed :: "nat \<Rightarrow> val list" where
  "zeroed bytes = replicate (bytes div 4) (U32 0)"

definition overwrite :: "val list \<Rightarrow> nat \<Rightarrow> val list \<Rightarrow> val list" where
  "overwrite old off data = take off old @ data @ drop (off + length data) old"

definition buffer_at :: "bind_group \<Rightarrow> nat \<Rightarrow> nat option" where
  "buffer_at bg b = (case map_of (bg_entries bg) b of Some (Some i) \<Rightarrow> Some i | _ \<Rightarrow> None)"

definition visible_to :: "nat \<Rightarrow> layout_entry \<Rightarrow> bool" where
  "visible_to stage e = (visibility e AND stage \<noteq> 0)"

text \<open>
  What a shader stage can read through a bind group: the buffers at the bindings whose
  layout entry names the stage in its visibility, and nothing else.
\<close>

definition stage_view :: "nat \<Rightarrow> bind_group \<Rightarrow> store \<Rightarrow> nat \<Rightarrow> val list option" where
  "stage_view stage bg s b =
     (case find (\<lambda>e. binding e = b) (bgl_entries (bg_layout bg)) of
        Some e \<Rightarrow>
          (if visible_to stage e
           then (case buffer_at bg b of Some i \<Rightarrow> s i | None \<Rightarrow> None)
           else None)
      | None \<Rightarrow> None)"

text \<open>
  Modelled from the spec: the compute shader \<^verbatim>\<open>simulation.wgsl\<close> is not among the sources.
  The spec calls its update rule an opaque, deterministic, pure function of the current
  state. It is a parameter here: \<open>K view x y b i\<close> is the value that the dispatch of \<open>x\<close> by
  \<open>y\<close> workgroups leaves in element \<open>i\<close> of the buffer at binding \<open>b\<close>, given what the
  compute stage can read. Only storage buffers visible to the compute stage are written.
\<close>

type_synonym kernel = "(nat \<Rightarrow> val list option) \<Rightarrow> nat \<Rightarrow> nat \<Rightarrow> nat \<Rightarrow> nat \<Rightarrow> val"

text \<open>
  Modelled from the spec: the workgroup size is declared in \<^verbatim>\<open>simulation.wgsl\<close>, which is not
  among the sources. The spec gives tiles of 8 by 8 cells.
\<close>

definition workgroup_size :: nat where
  "workgroup_size = 8"

definition write_binding ::
  "kernel \<Rightarrow> (nat \<Rightarrow> val list option) \<Rightarrow> bind_group \<Rightarrow> nat \<Rightarrow> nat \<Rightarrow> layout_entry \<Rightarrow> store \<Rightarrow> store" where
  "write_binding K view bg x y e s =
     (if visible_to GPUShaderStage_COMPUTE e \<and> buffer e = Storage
      then (case buffer_at bg (binding e) of
              Some i \<Rightarrow>
                (case s i of
                   Some old \<Rightarrow> s(i \<mapsto> map (K view x y (binding e)) [0..<length old])
                 | None \<Rightarrow> s)
            | None \<Rightarrow> s)
      else s)"

definition exec_compute :: "kernel \<Rightarrow> bind_group \<Rightarrow> nat \<Rightarrow> nat \<Rightarrow> store \<Rightarrow> store" where
  "exec_compute K bg x y s =
     fold (write_binding K (stage_view GPUShaderStage_COMPUTE bg s) bg x y)
       (bgl_entries (bg_layout bg)) s"

text \<open>A render pass writes the canvas only, which is not part of the store.\<close>

fun exec_command :: "kernel \<Rightarrow> gpu_command \<Rightarrow> store \<Rightarrow> store" where
  "exec_command K (ComputePass pl (Some bg) x y) s = exec_compute K bg x y s"
| "exec_command K (ComputePass pl None x y) s = s"
| "exec_command K (RenderPass pl vb bg n m) s = s"

fun device_step :: "kernel \<Rightarrow> action \<Rightarrow> store \<Rightarrow> store" where
  "device_step K (CreateBuffer i lbl bytes usage) s = s(i \<mapsto> zeroed bytes)"
| "device_step K (WriteBuffer i off data) s =
     (case s i of
        Some old \<Rightarrow>
          (if off div 4 + length data \<le> length old
           then s(i \<mapsto> overwrite old (off div 4) data) else s)
      | None \<Rightarrow> s)"
| "device_step K (Submit cmds) s = fold (exec_command K) cmds s"
| "device_step K (Encode c) s = s"
| "device_step K (RequestAnimationFrame i ref) s = s"
| "device_step K (CancelAnimationFrame i) s = s"
| "device_step K (SetFpsText n) s = s"

definition device_run :: "kernel \<Rightarrow> action list \<Rightarrow> store \<Rightarrow> store" where
  "device_run K acts s = fold (device_step K) acts s"

definition device_state :: "kernel \<Rightarrow> platform \<Rightarrow> store" where
  "device_state K p = device_run K (calls p) (\<lambda>i. None)"

section \<open>Observations on runs\<close>

text \<open>The flip test of \<^verbatim>\<open>runComputePass\<close> and of \<^verbatim>\<open>updateBindGroupIndex\<close>.\<close>

definition flip_due :: "int \<Rightarrow> int \<Rightarrow> int \<Rightarrow> bool" where
  "flip_due interval timeMs lastT = (timeMs - lastT \<ge> interval)"

text \<open>
  Calls of \<^verbatim>\<open>render\<close> on one \<^verbatim>\<open>Renderer\<close>, each with the module variables as they are
  then and its timestamp, and the number of flips among them.
\<close>

fun renders :: "(globals \<times> int) list \<Rightarrow> renderer \<times> platform \<Rightarrow> renderer \<times> platform" where
  "renders [] w = w"
| "renders ((g, timeMs) # ts) w = renders ts (Renderer_render g timeMs w)"

fun flips :: "(globals \<times> int) list \<Rightarrow> renderer \<times> platform \<Rightarrow> nat" where
  "flips [] w = 0"
| "flips ((g, timeMs) # ts) w =
     (if flip_due (COMPUTE_MS_INTERVAL g) timeMs (lastSwitch (fst w)) then 1 else 0)
     + flips ts (Renderer_render g timeMs w)"

fun flips1 :: "(int \<times> int) list \<Rightarrow> renderer1 \<times> platform \<Rightarrow> nat" where
  "flips1 [] w = 0"
| "flips1 ((interval, timeMs) # fs) (r, p) =
     (if flip_due interval timeMs (lastBindGroupSwitchTime r) then 1 else 0)
     + flips1 fs (Renderer1_render interval timeMs (r, p\<lparr>raf_pending := []\<rparr>))"

definition at_interval :: "nat \<Rightarrow> int \<Rightarrow> int list \<Rightarrow> (globals \<times> int) list" where
  "at_interval n interval ts =
     map (\<lambda>t. (\<lparr>GRID_SIZE = n, COMPUTE_MS_INTERVAL = interval\<rparr>, t)) ts"

text \<open>
  The buffer a compute pass writes (binding 3 of its bind group), the buffer a render pass
  reads (binding 2 of its bind group), and a submitted batch of one compute pass and one
  render pass in which the two differ.
\<close>

fun nonaliasing :: "gpu_command list \<Rightarrow> bool" where
  "nonaliasing [ComputePass cp (Some bg) x y, RenderPass rp vb (Some bg') n m] =
     (case (buffer_at bg 3, buffer_at bg' 2) of
        (Some written, Some shown) \<Rightarrow> written \<noteq> shown
      | _ \<Rightarrow> False)"
| "nonaliasing cmds = False"

fun last_submit :: "action list \<Rightarrow> gpu_command list option" where
  "last_submit [] = None"
| "last_submit (a # as) =
     (case last_submit as of
        Some cmds \<Rightarrow> Some cmds
      | None \<Rightarrow> (case a of Submit cmds \<Rightarrow> Some cmds | _ \<Rightarrow> None))"

section \<open>Closed forms used in the proofs\<close>

text \<open>
  What \<^verbatim>\<open>updateFPS\<close> writes to the page, the passes \<^verbatim>\<open>runComputePass\<close> and \<^verbatim>\<open>runRenderPass\<close>
  record for a \<^verbatim>\<open>Renderer\<close> whose direction is decided, and the number of flips as a
  function of the time of the last flip alone. Each is proved equal to what the
  definitions above compute.
\<close>

definition fps_calls :: "int \<Rightarrow> int \<Rightarrow> nat \<Rightarrow> action list" where
  "fps_calls timeMs lastT n =
     (if timeMs - (if lastT = 0 then timeMs else lastT) \<ge> 1000 then [SetFpsText (n + 1)] else [])"

definition compute_cmd :: "'a globals_scheme \<Rightarrow> renderer \<Rightarrow> gpu_command" where
  "compute_cmd g r =
     ComputePass (computePipeline r) (js_index (bindGroups (simulation r)) (bindGroupIndex r))
       (Math_ceil (of_nat (GRID_SIZE g) / 8)) (Math_ceil (of_nat (GRID_SIZE g) / 8))"

definition render_cmd :: "'a globals_scheme \<Rightarrow> renderer \<Rightarrow> gpu_command" where
  "render_cmd g r =
     RenderPass (renderPipeline r) (vertexBuffer r)
       (js_index (bindGroups (simulation r)) (bindGroupIndex r))
       (length (vertices r) div 2) (GRID_SIZE g * GRID_SIZE g)"

fun flip_count :: "int \<Rightarrow> int \<Rightarrow> int list \<Rightarrow> nat" where
  "flip_count interval lastT [] = 0"
| "flip_count interval lastT (t # ts) =
     (if flip_due interval t lastT then 1 + flip_count interval t ts
      else flip_count interval lastT ts)"

text \<open>The dispatch of a compute pass, and the two tick streams of the scenario.\<close>

fun dispatch_of :: "gpu_command \<Rightarrow> (nat \<times> nat) option" where
  "dispatch_of (ComputePass pl bg x y) = Some (x, y)"
| "dispatch_of (RenderPass pl vb bg n m) = None"

definition ticks_60Hz :: "int list" where
  "ticks_60Hz = map (\<lambda>k. (50 * int k) div 3) [0..<62]"

definition ticks_996 :: "int list" where
  "ticks_996 = map (\<lambda>k. (83 * int k) div 5) [0..<61] @ [1016]"

text \<open>
  The \<^verbatim>\<open>Renderer\<close> that the call of \<^verbatim>\<open>init\<close> made by \<^verbatim>\<open>Engine.start\<close> leaves when it resumes
  with nothing delivered in between, and the platform as it is then.
\<close>

definition started :: "(nat \<Rightarrow> rat) \<Rightarrow> renderer \<times> platform" where
  "started draws =
     (case handle InitResumes (Engine_start draws) of (a, p) \<Rightarrow> (last (renderers a), p))"

text \<open>
  Timestamps in ascending order in which each is at most \<open>g\<close> after the one before.
\<close>

fun spaced :: "int \<Rightarrow> int list \<Rightarrow> bool" where
  "spaced g [] = True"
| "spaced g [t] = True"
| "spaced g (t # u # ts) = (t \<le> u \<and> u - t \<le> g \<and> spaced g (u # ts))"

text \<open>Whether a batch of one compute pass and one render pass uses one bind group for both.\<close>

fun same_bind_group :: "gpu_command list \<Rightarrow> bool" where
  "same_bind_group [ComputePass cp (Some bg) x y, RenderPass rp vb (Some bg') n m] = (bg = bg')"
| "same_bind_group cmds = False"

section \<open>Sessions and the invariant of a run\<close>

text \<open>
  The cells a fill leaves, given the draws. A session is what one call of \<^verbatim>\<open>init\<close> makes:
  five buffers, the first of which has identity \<open>b\<close> (grid uniform, time uniform, vertices,
  state A, state B, in this order), which the call holds in its local variables while it
  waits, and the \<^verbatim>\<open>Simulation\<close> over them and a new \<^verbatim>\<open>Renderer\<close> once it has resumed.
\<close>

definition cells_of :: "(nat \<Rightarrow> rat) \<Rightarrow> nat \<Rightarrow> val list" where
  "cells_of draws n = map (\<lambda>i. random_cell (draws i)) [0..<n]"

definition session_sim :: "nat \<Rightarrow> simulation" where
  "session_sim b =
     Simulation_new \<lparr>grid_size = 0, uniformBuffer = b\<rparr> (b + 1) [b + 3, b + 4]
       PipelineFactory_createBindGroupLayout"

definition session_renderer :: "nat \<Rightarrow> nat \<Rightarrow> renderer" where
  "session_renderer k b =
     Renderer_new k
       (PipelineFactory_createRender
          (PipelineFactory_createPipelineLayout PipelineFactory_createBindGroupLayout))
       (PipelineFactory_createCompute
          (PipelineFactory_createPipelineLayout PipelineFactory_createBindGroupLayout))
       (b + 2) cell_vertices (session_sim b) (b + 1)"

definition session_locals :: "nat \<Rightarrow> nat \<Rightarrow> init_locals" where
  "session_locals n b =
     \<lparr>il_grid = \<lparr>grid_size = n, uniformBuffer = b\<rparr>, il_timeBuffer = b + 1,
      il_vertexBuffer = b + 2, il_vertices = cell_vertices, il_stateBuffers = [b + 3, b + 4],
      il_layout = PipelineFactory_createBindGroupLayout,
      il_pipelineLayout
        = PipelineFactory_createPipelineLayout PipelineFactory_createBindGroupLayout\<rparr>"

definition session_calls :: "nat \<Rightarrow> nat \<Rightarrow> val list \<Rightarrow> action list" where
  "session_calls n b cells =
     [CreateBuffer b ''Grid Uniform'' 8 (GPUBufferUsage_UNIFORM OR GPUBufferUsage_COPY_DST),
      WriteBuffer b 0 [F32 (of_nat n), F32 (of_nat n)],
      CreateBuffer (b + 1) ''Time Uniform'' 4 (GPUBufferUsage_UNIFORM OR GPUBufferUsage_COPY_DST),
      CreateBuffer (b + 2) ''Cell vertices'' 48 (GPUBufferUsage_VERTEX OR GPUBufferUsage_COPY_DST),
      WriteBuffer (b + 2) 0 cell_vertices,
      CreateBuffer (b + 3) ''State A'' (4 * length cells)
        (GPUBufferUsage_STORAGE OR GPUBufferUsage_COPY_DST),
      CreateBuffer (b + 4) ''State B'' (4 * length cells)
        (GPUBufferUsage_STORAGE OR GPUBufferUsage_COPY_DST),
      WriteBuffer (b + 3) 0 cells,
      WriteBuffer (b + 4) 0 cells]"

text \<open>
  The invariant of a run of the class-based variant: buffers are created five at a time,
  every waiting call of \<^verbatim>\<open>init\<close> holds the five buffers of one session, the \<open>k\<close>-th
  \<^verbatim>\<open>Renderer\<close> made knows its position and belongs to one session, every waiting frame
  request names a \<^verbatim>\<open>Renderer\<close> that exists, the \<^verbatim>\<open>Simulation\<close> the \<^verbatim>\<open>Engine\<close> holds, if any, is
  that of one session, and every batch submitted so far used one bind group of one session
  for both passes.
\<close>

definition session_ok :: "nat \<Rightarrow> renderer \<Rightarrow> bool" where
  "session_ok k r =
     (self r = k \<and> bindGroupIndex r < 2 \<and> timeBuffer r mod 5 = 1
      \<and> simulation r = session_sim (timeBuffer r - 1))"

definition locals_ok :: "init_locals \<Rightarrow> bool" where
  "locals_ok l =
     (let b = uniformBuffer (il_grid l)
      in b mod 5 = 0 \<and> il_timeBuffer l = b + 1 \<and> il_vertexBuffer l = b + 2
         \<and> il_vertices l = cell_vertices \<and> il_stateBuffers l = [b + 3, b + 4]
         \<and> il_layout l = PipelineFactory_createBindGroupLayout
         \<and> il_pipelineLayout l
             = PipelineFactory_createPipelineLayout PipelineFactory_createBindGroupLayout)"

definition session_bg :: "bind_group \<Rightarrow> bool" where
  "session_bg bg =
     (case buffer_at bg 0 of
        Some b \<Rightarrow> b mod 5 = 0 \<and> bg \<in> set (bindGroups (session_sim b))
      | None \<Rightarrow> False)"

fun batch_ok :: "gpu_command list \<Rightarrow> bool" where
  "batch_ok [ComputePass cp (Some bg) x y, RenderPass rp vb (Some bg') n m] =
     (bg = bg' \<and> session_bg bg)"
| "batch_ok cmds = False"

definition world_ok :: "app \<times> platform \<Rightarrow> bool" where
  "world_ok = (\<lambda>(a, p).
     next_buffer p mod 5 = 0
     \<and> (\<forall>l\<in>set (awaiting a). locals_ok l)
     \<and> (\<forall>k<length (renderers a). session_ok k (renderers a ! k))
     \<and> (\<forall>(i, ref)\<in>set (raf_pending p). ref < length (renderers a))
     \<and> (case engine_simulation a of
          None \<Rightarrow> True
        | Some sim \<Rightarrow> sim_time sim mod 5 = 1 \<and> sim = session_sim (sim_time sim - 1))
     \<and> (\<forall>cmds. Submit cmds \<in> set (calls p) \<longrightarrow> batch_ok cmds))"

section \<open>Comparing runs that differ in the time written\<close>

text \<open>
  The buffers the compute stage can reach through a bind group, a pass that reaches none
  of a given set of buffers, and two calls that are the same but for the data written to
  a buffer of that set. \<open>retime\<close> replaces the data written to such a buffer.
\<close>

definition compute_reads :: "bind_group \<Rightarrow> nat set" where
  "compute_reads bg =
     {i. \<exists>e\<in>set (bgl_entries (bg_layout bg)).
           visible_to GPUShaderStage_COMPUTE e \<and> buffer_at bg (binding e) = Some i}"

fun blind :: "nat set \<Rightarrow> gpu_command \<Rightarrow> bool" where
  "blind TB (ComputePass cp (Some bg) x y) = (compute_reads bg \<inter> TB = {})"
| "blind TB (ComputePass cp None x y) = True"
| "blind TB (RenderPass rp vb bg n m) = True"

fun time_variant :: "nat set \<Rightarrow> action \<Rightarrow> action \<Rightarrow> bool" where
  "time_variant TB (WriteBuffer i off d) b =
     (case b of
        WriteBuffer j off' d' \<Rightarrow>
          i = j \<and> off = off' \<and> (if i \<in> TB then length d = length d' else d = d')
      | _ \<Rightarrow> False)"
| "time_variant TB a b = (a = b)"

fun retime :: "nat set \<Rightarrow> val \<Rightarrow> action \<Rightarrow> action" where
  "retime TB v (WriteBuffer i off d) =
     (if i \<in> TB then WriteBuffer i off (map (\<lambda>x. v) d) else WriteBuffer i off d)"
| "retime TB v a = a"

fun is_write_to :: "nat \<Rightarrow> action \<Rightarrow> bool" where
  "is_write_to b (WriteBuffer i off d) = (i = b)"
| "is_write_to b a = False"

fun is_create :: "action \<Rightarrow> bool" where
  "is_create (CreateBuffer i lbl bytes usage) = True"
| "is_create a = False"

fun is_storage_create :: "action \<Rightarrow> bool" where
  "is_storage_create (CreateBuffer i lbl bytes usage) = (usage AND GPUBufferUsage_STORAGE \<noteq> 0)"
| "is_storage_create a = False"

text \<open>
  The part of the invariant that speaks of the device. The state buffers made by the
  newest call of \<^verbatim>\<open>init\<close> are those of the newest waiting call or, when no call waits, those
  of the \<^verbatim>\<open>Simulation\<close> the \<^verbatim>\<open>Engine\<close> holds; they hold \<^verbatim>\<open>GRID_SIZE\<close> squared cells each.
\<close>

definition newest_stateBuffers :: "app \<Rightarrow> nat list" where
  "newest_stateBuffers a =
     (if awaiting a = []
      then (case engine_simulation a of Some sim \<Rightarrow> stateBuffers sim | None \<Rightarrow> [])
      else il_stateBuffers (last (awaiting a)))"

definition dev_ok :: "kernel \<Rightarrow> app \<times> platform \<Rightarrow> bool" where
  "dev_ok K = (\<lambda>(a, p).
     (awaiting a = [] \<longrightarrow> engine_simulation a \<noteq> None)
     \<and> (\<forall>b\<in>set (newest_stateBuffers a).
           map_option length (device_state K p b) = Some (GRID_SIZE a * GRID_SIZE a)))"

definition trace_blind :: "nat set \<Rightarrow> action list \<Rightarrow> bool" where
  "trace_blind TB tr = (\<forall>cmds. Submit cmds \<in> set tr \<longrightarrow> (\<forall>c\<in>set cmds. blind TB c))"

definition agree_off :: "nat set \<Rightarrow> store \<Rightarrow> store \<Rightarrow> bool" where
  "agree_off TB s1 s2 = (\<forall>i. i \<notin> TB \<longrightarrow> s1 i = s2 i)"

section \<open>Lemmas\<close>

subsection \<open>Single calls of render\<close>

lemma emit_fields [simp]:
  "calls (emit a p) = calls p @ [a]" "next_buffer (emit a p) = next_buffer p"
  "raf_pending (emit a p) = raf_pending p" "raf_next (emit a p) = raf_next p"
  "rng (emit a p) = rng p"
  by (simp_all add: emit_def)

lemma Renderer_updateFPS_eq:
  "Renderer_updateFPS t (r, p) =
     (fst (Renderer_updateFPS t (r, p)),
      p\<lparr>calls := calls p @ fps_calls t (lastFrame r) (frameCount r)\<rparr>)"
  by (simp add: Renderer_updateFPS_def fps_calls_def Let_def emit_def)

lemma after_fps_fields [simp]:
  "self (fst (Renderer_updateFPS t (r, p))) = self r"
  "bindGroupIndex (fst (Renderer_updateFPS t (r, p))) = bindGroupIndex r"
  "lastSwitch (fst (Renderer_updateFPS t (r, p))) = lastSwitch r"
  "renderPipeline (fst (Renderer_updateFPS t (r, p))) = renderPipeline r"
  "computePipeline (fst (Renderer_updateFPS t (r, p))) = computePipeline r"
  "vertexBuffer (fst (Renderer_updateFPS t (r, p))) = vertexBuffer r"
  "vertices (fst (Renderer_updateFPS t (r, p))) = vertices r"
  "simulation (fst (Renderer_updateFPS t (r, p))) = simulation r"
  "timeBuffer (fst (Renderer_updateFPS t (r, p))) = timeBuffer r"
  by (simp_all add: Renderer_updateFPS_def Let_def)

lemma Renderer_render_platform:
  "snd (Renderer_render g t (r, p)) =
     (let r' = fst (Renderer_render g t (r, p)) in
      p\<lparr>raf_pending := raf_pending p @ [(raf_next p, self r)],
        raf_next := Suc (raf_next p),
        calls := calls p @ fps_calls t (lastFrame r) (frameCount r) @
           [Encode (compute_cmd g r'), Encode (render_cmd g r'),
            WriteBuffer (timeBuffer r) 0 [F32 (of_int t / 1000)],
            Submit [compute_cmd g r', render_cmd g r'],
            RequestAnimationFrame (raf_next p) (self r)]\<rparr>)"
  apply (subst (1 2) Renderer_render_def)
  apply (subst (1 2) Renderer_updateFPS_eq)
  apply (simp add: Renderer_runComputePass_def
     Renderer_runRenderPass_def Renderer_updateTimeBuffer_def queue_writeBuffer_def queue_submit_def
     requestAnimationFrame_def encode_pass_def Let_def compute_cmd_def render_cmd_def emit_def)
  done

lemma Renderer_render_fields [simp]:
  "self (fst (Renderer_render g t (r, p))) = self r"
  "bindGroupIndex (fst (Renderer_render g t (r, p))) =
     (if flip_due (COMPUTE_MS_INTERVAL g) t (lastSwitch r)
      then (bindGroupIndex r + 1) mod 2 else bindGroupIndex r)"
  "lastSwitch (fst (Renderer_render g t (r, p))) =
     (if flip_due (COMPUTE_MS_INTERVAL g) t (lastSwitch r) then t else lastSwitch r)"
  "renderPipeline (fst (Renderer_render g t (r, p))) = renderPipeline r"
  "computePipeline (fst (Renderer_render g t (r, p))) = computePipeline r"
  "vertexBuffer (fst (Renderer_render g t (r, p))) = vertexBuffer r"
  "vertices (fst (Renderer_render g t (r, p))) = vertices r"
  "simulation (fst (Renderer_render g t (r, p))) = simulation r"
  "timeBuffer (fst (Renderer_render g t (r, p))) = timeBuffer r"
  by (simp_all add: Renderer_render_def Renderer_runComputePass_def Renderer_runRenderPass_def
        flip_due_def Let_def split: prod.splits)
     (auto simp: Renderer_updateFPS_def Let_def encode_pass_def split: if_splits)

subsection \<open>Counting flips\<close>

lemma flips_flip_count:
  "flips (at_interval n I ts) (r, p) = flip_count I (lastSwitch r) ts"
proof (induction ts arbitrary: r p)
  case Nil
  then show ?case by (simp add: at_interval_def)
next
  case (Cons t ts)
  obtain r' p' where rp: "Renderer_render \<lparr>GRID_SIZE = n, COMPUTE_MS_INTERVAL = I\<rparr> t (r, p) = (r', p')"
    by (cases "Renderer_render \<lparr>GRID_SIZE = n, COMPUTE_MS_INTERVAL = I\<rparr> t (r, p)")
  have "lastSwitch r' = (if flip_due I t (lastSwitch r) then t else lastSwitch r)"
    using Renderer_render_fields(3) [of "\<lparr>GRID_SIZE = n, COMPUTE_MS_INTERVAL = I\<rparr>" t r p] rp by simp
  moreover have "flips (at_interval n I ts) (r', p') = flip_count I (lastSwitch r') ts"
    using Cons.IH [of r' p'] by simp
  ultimately show ?case
    using rp by (simp add: at_interval_def)
qed

lemma flip_count_fresh:
  "0 < I \<Longrightarrow> \<forall>t\<in>set ts. t \<le> M \<Longrightarrow> L \<le> M \<Longrightarrow> int (flip_count I L ts) \<le> (M - L) div I"
proof (induction ts arbitrary: L)
  case Nil
  then show ?case by (simp add: pos_imp_zdiv_nonneg_iff)
next
  case (Cons t ts)
  show ?case
  proof (cases "flip_due I t L")
    case True
    have tM: "t \<le> M" using Cons.prems by simp
    have "int (flip_count I t ts) \<le> (M - t) div I"
      using Cons.IH [of t] Cons.prems tM by simp
    moreover have "(M - t) div I + 1 \<le> (M - L) div I"
    proof -
      have "M - t + I \<le> M - L" using True by (simp add: flip_due_def)
      then have "(M - t + I) div I \<le> (M - L) div I"
        using Cons.prems(1) by (intro zdiv_mono1) auto
      then show ?thesis using Cons.prems(1) by simp
    qed
    ultimately show ?thesis using True by simp
  next
    case False
    then show ?thesis using Cons.IH [of L] Cons.prems by simp
  qed
qed

lemma flip_count_span:
  "0 < I \<Longrightarrow> \<forall>t\<in>set ts. m \<le> t \<and> t \<le> M \<Longrightarrow> m \<le> M \<Longrightarrow>
     int (flip_count I L ts) \<le> (M - m) div I + 1"
proof (induction ts arbitrary: L)
  case Nil
  then show ?case by (simp add: pos_imp_zdiv_nonneg_iff)
next
  case (Cons t ts)
  show ?case
  proof (cases "flip_due I t L")
    case True
    have t: "m \<le> t" "t \<le> M" using Cons.prems by simp_all
    have "int (flip_count I t ts) \<le> (M - t) div I"
      using flip_count_fresh [of I ts M t] Cons.prems t by simp
    moreover have "(M - t) div I \<le> (M - m) div I"
      using t Cons.prems(1) by (intro zdiv_mono1) auto
    ultimately show ?thesis using True by simp
  next
    case False
    then show ?thesis using Cons.IH [of L] Cons.prems by simp
  qed
qed

lemma sorted_bounds:
  "sorted ts \<Longrightarrow> ts \<noteq> [] \<Longrightarrow> \<forall>t\<in>set ts. hd ts \<le> t \<and> t \<le> last (ts::int list)"
proof (induction ts)
  case Nil
  then show ?case by simp
next
  case (Cons a ts)
  then show ?case by (cases ts) auto
qed

lemma spaced_sorted: "spaced g ts \<Longrightarrow> sorted ts"
  by (induction g ts rule: spaced.induct) auto

lemma flip_count_lower:
  "0 < I \<Longrightarrow> 0 \<le> g \<Longrightarrow> spaced g (q # ts) \<Longrightarrow> q < L + I \<Longrightarrow>
     last (q # ts) - L < (int (flip_count I L ts) + 1) * (I + g)"
proof (induction ts arbitrary: q L)
  case Nil
  then show ?case by (simp add: algebra_simps)
next
  case (Cons t ts)
  have sp: "q \<le> t" "t - q \<le> g" "spaced g (t # ts)"
    using Cons.prems(3) by simp_all
  show ?case
  proof (cases "flip_due I t L")
    case True
    have "last (t # ts) - t < (int (flip_count I t ts) + 1) * (I + g)"
      using Cons.IH [of t t] Cons.prems(1,2) sp(3) by simp
    moreover have "t - L < I + g"
      using sp(2) Cons.prems(4) by simp
    ultimately have "last (t # ts) - L < (int (flip_count I t ts) + 1) * (I + g) + (I + g)"
      by simp
    then show ?thesis
      using True by (simp add: algebra_simps)
  next
    case False
    then have "t < L + I" by (simp add: flip_due_def)
    then have "last (t # ts) - L < (int (flip_count I L ts) + 1) * (I + g)"
      using Cons.IH [of t L] Cons.prems(1,2) sp(3) by simp
    then show ?thesis
      using False by simp
  qed
qed

lemma div_le_of_less_mult:
  "0 < (d::int) \<Longrightarrow> x < (k + 1) * d \<Longrightarrow> x div d \<le> k"
proof (rule ccontr)
  assume d: "0 < d" and x: "x < (k + 1) * d" and "\<not> x div d \<le> k"
  then have "k + 1 \<le> x div d" by simp
  then have "(k + 1) * d \<le> (x div d) * d"
    using d by (intro mult_right_mono) simp_all
  moreover have "(x div d) * d \<le> x"
  proof -
    have "x = (x div d) * d + x mod d" by simp
    moreover have "0 \<le> x mod d" using d by simp
    ultimately show ?thesis by linarith
  qed
  ultimately show False using x by linarith
qed

lemma flip_count_from_first:
  assumes I: "0 < I" and g: "0 \<le> g" and sp: "spaced g ts" and ne: "ts \<noteq> []" and L: "L \<le> hd ts"
  shows "(last ts - hd ts) div (I + g) \<le> int (flip_count I L ts)"
proof -
  obtain t rest where ts: "ts = t # rest" using ne by (cases ts) auto
  have d: "0 < I + g" using I g by simp
  show ?thesis
  proof (cases "flip_due I t L")
    case True
    have "last (t # rest) - t < (int (flip_count I t rest) + 1) * (I + g)"
      using flip_count_lower [OF I g, of t rest t] sp I by (simp add: ts)
    then have "(last (t # rest) - t) div (I + g) \<le> int (flip_count I t rest)"
      using d by (rule div_le_of_less_mult [rotated])
    then show ?thesis using True by (simp add: ts)
  next
    case False
    then have "t < L + I" by (simp add: flip_due_def)
    then have "last (t # rest) - L < (int (flip_count I L rest) + 1) * (I + g)"
      using flip_count_lower [OF I g, of t rest L] sp by (simp add: ts)
    moreover have "last (t # rest) - t \<le> last (t # rest) - L"
      using L by (simp add: ts)
    ultimately have "last (t # rest) - t < (int (flip_count I L rest) + 1) * (I + g)"
      by linarith
    then have "(last (t # rest) - t) div (I + g) \<le> int (flip_count I L rest)"
      using d by (rule div_le_of_less_mult [rotated])
    then show ?thesis using False by (simp add: ts)
  qed
qed

lemma flip_count_from_zero:
  assumes I: "0 < I" and g: "0 \<le> g" and sp: "spaced g ts" and ne: "ts \<noteq> []"
    and h: "0 \<le> hd ts" "hd ts \<le> g"
  shows "last ts div (I + g) \<le> int (flip_count I 0 ts)"
proof -
  obtain t rest where ts: "ts = t # rest" using ne by (cases ts) auto
  have "spaced g (0 # ts)" using sp h by (simp add: ts)
  then have "last (0 # ts) - 0 < (int (flip_count I 0 ts) + 1) * (I + g)"
    using flip_count_lower [OF I g, of 0 ts 0] I by simp
  then have "last ts < (int (flip_count I 0 ts) + 1) * (I + g)"
    using ne by simp
  then show ?thesis
    using I g by (intro div_le_of_less_mult) simp_all
qed

lemma Engine_start_renderer:
  "lastSwitch (fst (started draws)) = 0 \<and> bindGroupIndex (fst (started draws)) = 0"
  by (simp add: started_def Engine_start_def Engine_init_def Engine_init_resumed_def
      module_init_def Let_def Renderer_new_def split: prod.splits)

lemma flip_count_ticks_60Hz: "flip_count 100 0 ticks_60Hz = 10"
  unfolding ticks_60Hz_def by (simp add: upt_rec flip_due_def)

lemma flip_count_ticks_996: "flip_count 100 0 ticks_996 = 9"
  unfolding ticks_996_def by (simp add: upt_rec flip_due_def)

lemma scenario_60Hz_ten_flips:
  "flips (at_interval 4 100 ticks_60Hz) (started draws) = 10"
  using flips_flip_count [of 4 100 ticks_60Hz "fst (started draws)" "snd (started draws)"]
  by (simp add: Engine_start_renderer flip_count_ticks_60Hz)

lemma scenario_996_nine_flips:
  "flips (at_interval 4 100 ticks_996) (started draws) = 9"
  using flips_flip_count [of 4 100 ticks_996 "fst (started draws)" "snd (started draws)"]
  by (simp add: Engine_start_renderer flip_count_ticks_996)

lemma last_ticks:
  "last ticks_60Hz = 1016" "hd ticks_60Hz = 0" "spaced 17 ticks_60Hz" "ticks_60Hz \<noteq> []"
  unfolding ticks_60Hz_def by (simp_all add: upt_rec)

subsection \<open>Single calls of render in the earlier variant\<close>

lemma Renderer1_updateFpsCount_snd [simp]:
  "snd (Renderer1_updateFpsCount t (r, p)) =
     p\<lparr>calls := calls p @ fps_calls t (lastFrameTime r) (frameCount1 r)\<rparr>"
  by (simp add: Renderer1_updateFpsCount_def fps_calls_def Let_def emit_def)

lemma after_fps1_fields [simp]:
  "bindGroupIndex1 (fst (Renderer1_updateFpsCount t (r, p))) = bindGroupIndex1 r"
  "lastBindGroupSwitchTime (fst (Renderer1_updateFpsCount t (r, p))) = lastBindGroupSwitchTime r"
  "cellPipeline (fst (Renderer1_updateFpsCount t (r, p))) = cellPipeline r"
  "simulationPipeline (fst (Renderer1_updateFpsCount t (r, p))) = simulationPipeline r"
  "vertexBuffer1 (fst (Renderer1_updateFpsCount t (r, p))) = vertexBuffer1 r"
  "vertices1 (fst (Renderer1_updateFpsCount t (r, p))) = vertices1 r"
  "bindGroups1 (fst (Renderer1_updateFpsCount t (r, p))) = bindGroups1 r"
  "timeBuffer1 (fst (Renderer1_updateFpsCount t (r, p))) = timeBuffer1 r"
  by (simp_all add: Renderer1_updateFpsCount_def Let_def)

lemma Renderer1_render_fields [simp]:
  "bindGroupIndex1 (fst (Renderer1_render I t (r, p))) =
     (if flip_due I t (lastBindGroupSwitchTime r)
      then (bindGroupIndex1 r + 1) mod length (bindGroups1 r) else bindGroupIndex1 r)"
  "lastBindGroupSwitchTime (fst (Renderer1_render I t (r, p))) =
     (if flip_due I t (lastBindGroupSwitchTime r) then t else lastBindGroupSwitchTime r)"
  "cellPipeline (fst (Renderer1_render I t (r, p))) = cellPipeline r"
  "simulationPipeline (fst (Renderer1_render I t (r, p))) = simulationPipeline r"
  "vertexBuffer1 (fst (Renderer1_render I t (r, p))) = vertexBuffer1 r"
  "vertices1 (fst (Renderer1_render I t (r, p))) = vertices1 r"
  "bindGroups1 (fst (Renderer1_render I t (r, p))) = bindGroups1 r"
  "timeBuffer1 (fst (Renderer1_render I t (r, p))) = timeBuffer1 r"
  by (simp_all add: Renderer1_render_def Renderer1_updateBindGroupIndex_def
        flip_due_def Let_def encode_pass_def split: prod.splits)
     (auto simp: Renderer1_updateFpsCount_def Let_def split: if_splits)

lemma Renderer1_render_platform:
  "snd (Renderer1_render I t (r, p)) =
     (let r' = fst (Renderer1_render I t (r, p));
          c = ComputePass (simulationPipeline r) (js_index (bindGroups1 r) (bindGroupIndex1 r))
                (Math_ceil (of_nat GRID_SIZE1 / 8)) (Math_ceil (of_nat GRID_SIZE1 / 8));
          d = RenderPass (cellPipeline r) (vertexBuffer1 r)
                (js_index (bindGroups1 r) (bindGroupIndex1 r'))
                (length (vertices1 r) div 2) (GRID_SIZE1 * GRID_SIZE1)
      in p\<lparr>raf_pending := raf_pending p @ [(raf_next p, 0)],
           raf_next := Suc (raf_next p),
           calls := calls p @ [Encode c] @ fps_calls t (lastFrameTime r) (frameCount1 r) @
             [WriteBuffer (timeBuffer1 r) 0 [F32 (of_int t / 1000)], Encode d,
              Submit [c, d], RequestAnimationFrame (raf_next p) 0]\<rparr>)"
proof -
  have fld: "bindGroupIndex1 (fst (Renderer1_render I t (r, p))) =
     bindGroupIndex1 (Renderer1_updateBindGroupIndex I t r)"
    by (simp add: Renderer1_updateBindGroupIndex_def flip_due_def)
  show ?thesis
    unfolding fld Let_def
    by (simp add: Renderer1_render_def encode_pass_def Let_def split_def queue_writeBuffer_def
        queue_submit_def requestAnimationFrame_def emit_def Renderer1_updateBindGroupIndex_def)
qed

subsection \<open>Runs of one renderer\<close>

lemma init1_renderer:
  "bindGroupIndex1 (fst (init1 draws)) = 0"
  "lastBindGroupSwitchTime (fst (init1 draws)) = 0"
  "length (bindGroups1 (fst (init1 draws))) = 2"
  by (simp_all add: init1_def Let_def Renderer1_new_def createBindGroups_def split: prod.splits)

lemma frames1_bindGroups [simp]:
  "bindGroups1 (fst (frames1 fs w)) = bindGroups1 (fst w)"
proof (induction fs arbitrary: w)
  case Nil
  then show ?case by simp
next
  case (Cons f fs)
  obtain I t where f: "f = (I, t)" by (cases f)
  obtain r p where w: "w = (r, p)" by (cases w)
  show ?case
    unfolding f w by (simp add: Cons.IH)
qed

lemma renders_parity:
  "bindGroupIndex (fst w) < 2 \<Longrightarrow>
     bindGroupIndex (fst (renders ts w)) = (bindGroupIndex (fst w) + flips ts w) mod 2"
proof (induction ts arbitrary: w)
  case Nil
  then show ?case by simp
next
  case (Cons gt ts)
  obtain g t where gt: "gt = (g, t)" by (cases gt)
  obtain r p where w: "w = (r, p)" by (cases w)
  have lt: "bindGroupIndex (fst (Renderer_render g t (r, p))) < 2"
    using Cons.prems by (simp add: w)
  show ?case
    unfolding gt w using Cons.IH [OF lt] Cons.prems
    by (simp add: w) presburger
qed

lemma frames1_parity:
  "length (bindGroups1 (fst w)) = 2 \<Longrightarrow> bindGroupIndex1 (fst w) < 2 \<Longrightarrow>
     bindGroupIndex1 (fst (frames1 fs w)) = (bindGroupIndex1 (fst w) + flips1 fs w) mod 2"
proof (induction fs arbitrary: w)
  case Nil
  then show ?case by simp
next
  case (Cons f fs)
  obtain I t where f: "f = (I, t)" by (cases f)
  obtain r p where w: "w = (r, p)" by (cases w)
  let ?w' = "Renderer1_render I t (r, p\<lparr>raf_pending := []\<rparr>)"
  have len: "length (bindGroups1 (fst ?w')) = 2"
    using Cons.prems by (simp add: w)
  have lt: "bindGroupIndex1 (fst ?w') < 2"
    using Cons.prems by (simp add: w)
  show ?case
    unfolding f w using Cons.IH [OF len lt] Cons.prems
    by (simp add: w) presburger
qed

lemma flips1_Cons:
  "flips1 ((I, t) # fs) w =
     (if flip_due I t (lastBindGroupSwitchTime (fst w)) then 1 else 0)
     + flips1 fs (Renderer1_render I t (fst w, (snd w)\<lparr>raf_pending := []\<rparr>))"
  by (cases w) simp

lemma frames1_Cons:
  "frames1 ((I, t) # fs) w =
     frames1 fs (Renderer1_render I t (fst w, (snd w)\<lparr>raf_pending := []\<rparr>))"
  by (cases w) simp

subsection \<open>The dispatch and the last batch of a trace\<close>

lemma Math_ceil_div8: "Math_ceil (of_nat n / 8) = (n + 7) div 8"
proof -
  have "\<lceil>(of_nat n :: rat) / 8\<rceil> = \<lceil>(of_int (int n) :: rat) / of_int 8\<rceil>" by simp
  also have "\<dots> = - (- int n div 8)" by (rule ceiling_divide_eq_div)
  finally show ?thesis by (simp add: Math_ceil_def)
qed

lemma last_submit_append:
  "last_submit (xs @ ys) = (case last_submit ys of Some c \<Rightarrow> Some c | None \<Rightarrow> last_submit xs)"
  by (induction xs) (auto split: option.splits action.splits)

lemma last_submit_mem: "last_submit tr = Some c \<Longrightarrow> Submit c \<in> set tr"
  by (induction tr arbitrary: c) (auto split: option.splits action.splits)

lemma tile_cover:
  fixes x :: nat
  assumes "x < n"
  shows "\<exists>w<(n + 7) div 8. \<exists>l<8. x = w * 8 + l"
proof (intro exI conjI)
  show "x div 8 < (n + 7) div 8" using assms by linarith
  show "x mod 8 < 8" by simp
  show "x = x div 8 * 8 + x mod 8" by simp
qed

subsection \<open>Sessions\<close>

lemma random_fill_eq:
  "random_fill n p = (cells_of (rng p) n, p\<lparr>rng := (\<lambda>i. rng p (i + n))\<rparr>)"
proof (induction n arbitrary: p)
  case 0
  then show ?case by (simp add: cells_of_def)
next
  case (Suc n)
  have "cells_of (rng p) (Suc n) = random_cell (rng p 0) # cells_of (\<lambda>i. rng p (Suc i)) n"
    unfolding cells_of_def by (simp only: map_upt_Suc)
  then show ?case
    by (simp add: Math_random_def Suc.IH del: upt_Suc)
qed

lemma length_cells_of [simp]: "length (cells_of d n) = n"
  by (simp add: cells_of_def)

lemma Simulation_new_grid:
  "Simulation_new \<lparr>grid_size = n, uniformBuffer = b\<rparr> tb st lay
     = Simulation_new \<lparr>grid_size = 0, uniformBuffer = b\<rparr> tb st lay"
  by (simp add: Simulation_new_def Simulation_createBindGroups_def)

lemma Engine_init_eq:
  "Engine_init n (a, p) =
     (a\<lparr>awaiting := awaiting a @ [session_locals n (next_buffer p)]\<rparr>,
      p\<lparr>next_buffer := next_buffer p + 5,
        rng := (\<lambda>i. rng p (i + n * n)),
        calls := calls p @ session_calls n (next_buffer p) (cells_of (rng p) (n * n))\<rparr>)"
proof -
  have suc: "Suc (Suc (Suc b)) = b + 3" "Suc (Suc (Suc (Suc b))) = b + 4"
    "Suc (Suc (Suc (Suc (Suc b)))) = b + 5" for b
    by simp_all
  show ?thesis
    by (simp add: Engine_init_def Grid_new_def Buffers_createTimeBuffer_def
      Buffers_createVertexBuffer_def Buffers_createStateBuffers_def random_fill_eq
      device_createBuffer_def queue_writeBuffer_def emit_def
      Let_def session_locals_def session_calls_def byteLength_def
      cell_vertices_def suc add.commute)
qed

lemma Engine_init_resumed_eq:
  "Engine_init_resumed (session_locals n b) (a, p) =
     (a\<lparr>engine_simulation := Some (session_sim b),
        engine_renderer := Some (length (renderers a)),
        animationFrameId := Some (raf_next p),
        renderers := renderers a @ [session_renderer (length (renderers a)) b]\<rparr>,
      p\<lparr>raf_pending := raf_pending p @ [(raf_next p, length (renderers a))],
        raf_next := Suc (raf_next p),
        calls := calls p @ [RequestAnimationFrame (raf_next p) (length (renderers a))]\<rparr>)"
  by (simp add: Engine_init_resumed_def requestAnimationFrame_def emit_def Let_def
      session_locals_def session_sim_def session_renderer_def Simulation_new_grid [of n])

lemma locals_ok_session:
  "locals_ok l \<Longrightarrow> l = session_locals (grid_size (il_grid l)) (uniformBuffer (il_grid l))"
  by (cases l) (simp add: locals_ok_def session_locals_def Let_def)

lemma locals_ok_session_locals [simp]: "locals_ok (session_locals n b) = (5 dvd b)"
  by (simp add: locals_ok_def session_locals_def mod_eq_0_iff_dvd)

lemma Simulation_reset_eq:
  "Simulation_reset n sim p =
     p\<lparr>rng := (\<lambda>i. rng p (i + n * n)),
       calls := calls p @ map (\<lambda>b. WriteBuffer b 0 (cells_of (rng p) (n * n))) (stateBuffers sim)\<rparr>"
proof -
  have "fold (\<lambda>b. queue_writeBuffer b 0 d) bs q = q\<lparr>calls := calls q @ map (\<lambda>b. WriteBuffer b 0 d) bs\<rparr>"
    for d bs q
    by (induction bs arbitrary: q) (simp_all add: queue_writeBuffer_def emit_def)
  then show ?thesis
    by (simp add: Simulation_reset_def random_fill_eq)
qed

lemma session_sim_fields [simp]:
  "stateBuffers (session_sim b) = [b + 3, b + 4]"
  "sim_time (session_sim b) = b + 1"
  "length (bindGroups (session_sim b)) = 2"
  by (simp_all add: session_sim_def Simulation_new_def Simulation_createBindGroups_def)

lemma session_bindGroups:
  "bindGroups (session_sim b) =
     [\<lparr>bg_label = [], bg_layout = PipelineFactory_createBindGroupLayout,
       bg_entries = [(0, Some b), (1, Some (b + 1)), (2, Some (b + 3)), (3, Some (b + 4))]\<rparr>,
      \<lparr>bg_label = [], bg_layout = PipelineFactory_createBindGroupLayout,
       bg_entries = [(0, Some b), (1, Some (b + 1)), (2, Some (b + 4)), (3, Some (b + 3))]\<rparr>]"
  by (simp add: session_sim_def Simulation_new_def Simulation_createBindGroups_def js_index_def)

lemma session_js_index:
  "i < 2 \<Longrightarrow> js_index (bindGroups (session_sim b)) i = Some (bindGroups (session_sim b) ! i)"
  by (simp add: js_index_def)

lemma session_bg_nth:
  "5 dvd b \<Longrightarrow> i < 2 \<Longrightarrow> session_bg (bindGroups (session_sim b) ! i)"
proof -
  assume b: "5 dvd b" and i: "i < 2"
  have "i = 0 \<or> i = 1" using i by auto
  then have "buffer_at (bindGroups (session_sim b) ! i) 0 = Some b"
    by (auto simp: session_bindGroups buffer_at_def)
  then show ?thesis
    using b i by (simp add: session_bg_def)
qed

lemma session_bg_cases:
  assumes "session_bg bg"
  obtains b where "5 dvd b" "bg = bindGroups (session_sim b) ! 0"
  | b where "5 dvd b" "bg = bindGroups (session_sim b) ! 1"
proof -
  from assms obtain b where b: "5 dvd b" "bg \<in> set (bindGroups (session_sim b))"
    by (auto simp: session_bg_def split: option.splits)
  then have "bg = bindGroups (session_sim b) ! 0 \<or> bg = bindGroups (session_sim b) ! 1"
    by (auto simp: session_bindGroups)
  then show ?thesis using b that by blast
qed

lemma session_bg_nonaliasing:
  "session_bg bg \<Longrightarrow> nonaliasing [ComputePass cp (Some bg) x y, RenderPass rp vb (Some bg) n m]"
  by (erule session_bg_cases) (simp_all add: session_bindGroups buffer_at_def)

lemma batch_ok_nonaliasing: "batch_ok cmds \<Longrightarrow> nonaliasing cmds"
proof (induction cmds rule: batch_ok.induct)
  case (1 cp bg x y rp vb bg' n m)
  then show ?case using session_bg_nonaliasing [of bg cp x y rp vb n m] by auto
qed simp_all

lemma time_buffer_mod: "5 dvd b \<Longrightarrow> Suc b mod 5 = 1"
  by (auto simp: mod_Suc elim!: dvdE)

lemma session_renderer_ok: "5 dvd b \<Longrightarrow> session_ok k (session_renderer k b)"
  by (simp add: session_ok_def session_renderer_def Renderer_new_def time_buffer_mod)

lemma session_ok_base:
  assumes "session_ok k r"
  obtains b where "5 dvd b" "timeBuffer r = b + 1" "simulation r = session_sim b"
proof -
  let ?b = "timeBuffer r - 1"
  have m: "timeBuffer r mod 5 = 1" and s: "simulation r = session_sim ?b"
    using assms by (simp_all add: session_ok_def)
  have pos: "timeBuffer r = ?b + 1" using m by (cases "timeBuffer r") auto
  have "5 dvd ?b" using m pos by presburger
  then show ?thesis using that pos s by blast
qed

lemma session_ok_render:
  "session_ok k r \<Longrightarrow> session_ok k (fst (Renderer_render g t (r, p)))"
  by (simp add: session_ok_def)

lemma session_ok_batch:
  assumes "session_ok k r"
  shows "batch_ok [compute_cmd g (fst (Renderer_render g' t (r, p))),
                   render_cmd g (fst (Renderer_render g' t (r, p)))]"
proof -
  let ?r' = "fst (Renderer_render g' t (r, p))"
  have ok: "session_ok k ?r'" using assms by (rule session_ok_render)
  then have idx: "bindGroupIndex ?r' < 2"
    by (simp add: session_ok_def del: Renderer_render_fields)
  from ok obtain b where b: "5 dvd b" and sim: "simulation ?r' = session_sim b"
    by (rule session_ok_base)
  have "session_bg (bindGroups (session_sim b) ! bindGroupIndex ?r')"
    using idx b by (intro session_bg_nth) simp_all
  then show ?thesis
    unfolding compute_cmd_def render_cmd_def sim
    using session_js_index [OF idx, of b] by (simp del: Renderer_render_fields)
qed

subsection \<open>The invariant of a run\<close>

lemma Submit_notin_fps_calls [simp]: "Submit c \<notin> set (fps_calls t l n)"
  by (simp add: fps_calls_def)

lemma render_platform_fields [simp]:
  "next_buffer (snd (Renderer_render g t (r, p))) = next_buffer p"
  "raf_pending (snd (Renderer_render g t (r, p))) = raf_pending p @ [(raf_next p, self r)]"
  "raf_next (snd (Renderer_render g t (r, p))) = Suc (raf_next p)"
  "rng (snd (Renderer_render g t (r, p))) = rng p"
  by (simp_all add: Renderer_render_platform Let_def)

lemma render_calls:
  "calls (snd (Renderer_render g t (r, p))) =
     calls p @ fps_calls t (lastFrame r) (frameCount r) @
       [Encode (compute_cmd g (fst (Renderer_render g t (r, p)))),
        Encode (render_cmd g (fst (Renderer_render g t (r, p)))),
        WriteBuffer (timeBuffer r) 0 [F32 (of_int t / 1000)],
        Submit [compute_cmd g (fst (Renderer_render g t (r, p))),
                render_cmd g (fst (Renderer_render g t (r, p)))],
        RequestAnimationFrame (raf_next p) (self r)]"
  by (subst Renderer_render_platform) (simp add: Let_def)

lemma run_callback_eq:
  "ref < length (renderers a) \<Longrightarrow>
     run_callback t (i, ref) (a, p) =
       (a\<lparr>renderers := (renderers a)[ref := fst (Renderer_render a t (renderers a ! ref, p))]\<rparr>,
        snd (Renderer_render a t (renderers a ! ref, p)))"
  by (simp add: run_callback_def js_index_def split_def Let_def)

lemma world_ok_callback:
  assumes ok: "world_ok (a, p)" and ref: "ref < length (renderers a)"
  shows "world_ok (run_callback t (i, ref) (a, p))"
proof -
  let ?r = "renderers a ! ref"
  let ?r' = "fst (Renderer_render a t (?r, p))"
  have sok: "session_ok ref ?r"
    using ok ref by (simp add: world_ok_def)
  have self: "self ?r = ref"
    using sok by (simp add: session_ok_def)
  have sok': "session_ok ref ?r'"
    using sok by (rule session_ok_render)
  have batch: "batch_ok [compute_cmd a ?r', render_cmd a ?r']"
    using sok by (rule session_ok_batch)
  have all: "\<forall>k<length (renderers a). session_ok k ((renderers a)[ref := ?r'] ! k)"
    using ok sok' ref by (auto simp: world_ok_def nth_list_update simp del: Renderer_render_fields)
  show ?thesis
    unfolding run_callback_eq [OF ref] world_ok_def
    using ok all batch ref self
    by (auto simp: world_ok_def render_calls simp del: Renderer_render_fields)
qed

lemma run_callback_length:
  "length (renderers (fst (run_callback t cb w))) = length (renderers (fst w))"
  by (cases w; cases cb) (simp add: run_callback_def split_def Let_def split: option.splits)

lemma world_ok_callbacks:
  "world_ok w \<Longrightarrow> \<forall>(i, ref)\<in>set cbs. ref < length (renderers (fst w)) \<Longrightarrow>
     world_ok (fold (run_callback t) cbs w)"
proof (induction cbs arbitrary: w)
  case Nil
  then show ?case by simp
next
  case (Cons cb cbs)
  obtain i ref where cb: "cb = (i, ref)" by (cases cb)
  obtain a p where w: "w = (a, p)" by (cases w)
  have "world_ok (run_callback t cb w)"
    unfolding cb w using Cons.prems by (intro world_ok_callback) (simp_all add: cb w)
  moreover have "\<forall>(i, ref)\<in>set cbs. ref < length (renderers (fst (run_callback t cb w)))"
    using Cons.prems(2) by (simp add: run_callback_length)
  ultimately show ?case
    using Cons.IH by simp
qed

lemma world_ok_start: "world_ok (Engine_start draws)"
  by (simp add: Engine_start_def Engine_init_eq world_ok_def module_init_def platform_init_def
      session_calls_def)

lemma world_ok_resumed:
  assumes ok: "world_ok (a, p)" and l: "awaiting a = l # ls"
  shows "world_ok (Engine_init_resumed l (a\<lparr>awaiting := ls\<rparr>, p))"
proof -
  have lok: "locals_ok l" using ok l by (simp add: world_ok_def)
  define n b where "n = grid_size (il_grid l)" and "b = uniformBuffer (il_grid l)"
  have leq: "l = session_locals n b"
    unfolding n_def b_def using lok by (rule locals_ok_session)
  have b: "5 dvd b" using lok by (simp add: leq)
  have r: "session_ok (length (renderers a)) (session_renderer (length (renderers a)) b)"
    using b by (rule session_renderer_ok)
  have pend: "\<forall>(i, ref)\<in>set (raf_pending p). ref < Suc (length (renderers a))"
    using ok by (fastforce simp: world_ok_def)
  show ?thesis
    unfolding leq Engine_init_resumed_eq
    using ok l r pend b
    by (auto simp: world_ok_def nth_append less_Suc_eq time_buffer_mod)
qed

lemma world_ok_handle: "world_ok w \<Longrightarrow> world_ok (handle e w)"
proof (cases e)
  case (AnimationFrame t)
  obtain a p where w: "w = (a, p)" by (cases w)
  assume "world_ok w"
  then have ok: "world_ok (a, p)" by (simp add: w)
  have "world_ok (a, p\<lparr>raf_pending := []\<rparr>)"
    using ok by (simp add: world_ok_def)
  moreover have "\<forall>(i, ref)\<in>set (raf_pending p). ref < length (renderers a)"
    using ok by (simp add: world_ok_def)
  ultimately show ?thesis
    unfolding AnimationFrame w by (simp add: world_ok_callbacks)
next
  case ResetClick
  assume ok: "world_ok w"
  then show ?thesis
    unfolding ResetClick
    by (cases w) (auto simp: world_ok_def Simulation_reset_eq split: option.splits)
next
  case (ComputeIntervalInput v)
  assume ok: "world_ok w"
  then show ?thesis
    unfolding ComputeIntervalInput by (cases w) (auto simp: world_ok_def)
next
  case (GridSizeInput n)
  obtain a p where w: "w = (a, p)" by (cases w)
  assume "world_ok w"
  then have ok: "world_ok (a, p)" by (simp add: w)
  obtain a1 p1 where st: "Engine_stopRendering (a, p) = (a1, p1)"
    by (cases "Engine_stopRendering (a, p)")
  have a1: "renderers a1 = renderers a" "next_buffer p1 = next_buffer p"
    "set (raf_pending p1) \<subseteq> set (raf_pending p)"
    "\<forall>c. Submit c \<in> set (calls p1) \<longrightarrow> Submit c \<in> set (calls p)"
    "awaiting a1 = awaiting a" "engine_simulation a1 = engine_simulation a"
    using st by (auto simp: Engine_stopRendering_def cancelAnimationFrame_def split: option.splits)
  have "\<forall>(i, ref)\<in>set (raf_pending p1). ref < length (renderers a)"
    using ok a1(3) by (fastforce simp: world_ok_def)
  then show ?thesis
    unfolding GridSizeInput w using ok a1(1,2,4,5,6)
    by (auto simp: st Engine_init_eq world_ok_def session_calls_def)
next
  case InitResumes
  obtain a p where w: "w = (a, p)" by (cases w)
  assume "world_ok w"
  then have ok: "world_ok (a, p)" by (simp add: w)
  show ?thesis
  proof (cases "awaiting a")
    case Nil
    then show ?thesis unfolding InitResumes w using ok by simp
  next
    case (Cons l ls)
    then show ?thesis
      unfolding InitResumes w using world_ok_resumed [OF ok Cons] by simp
  qed
qed

lemma world_ok_run: "world_ok w \<Longrightarrow> world_ok (run evs w)"
  unfolding run_def by (induction evs arbitrary: w) (simp_all add: world_ok_handle)

lemma world_ok_reachable: "world_ok (run evs (Engine_start draws))"
  by (rule world_ok_run [OF world_ok_start])

subsection \<open>Initialisation and aliasing in the earlier variant\<close>

lemma init1_eq:
  "init1 draws =
     (Renderer1_new (createCellPipeline (createPipelineLayout createBindGroupLayout))
        (createComputePipeline (createPipelineLayout createBindGroupLayout)) 4
        (createBindGroups 0 1 [2, 3] createBindGroupLayout) 1 cell_vertices,
      \<lparr>next_buffer = 5, raf_pending = [(1, 0)], raf_next = 2,
       rng = (\<lambda>i. draws (i + GRID_SIZE1 * GRID_SIZE1)),
       calls =
         [CreateBuffer 0 ''Grid Uniforms'' 8 (GPUBufferUsage_UNIFORM OR GPUBufferUsage_COPY_DST),
          WriteBuffer 0 0 [F32 (of_nat GRID_SIZE1), F32 (of_nat GRID_SIZE1)],
          CreateBuffer 1 ''Time Uniform'' 4 (GPUBufferUsage_UNIFORM OR GPUBufferUsage_COPY_DST),
          CreateBuffer 2 ''Cell State A'' (4 * (GRID_SIZE1 * GRID_SIZE1))
            (GPUBufferUsage_STORAGE OR GPUBufferUsage_COPY_DST),
          CreateBuffer 3 ''Cell State B'' (4 * (GRID_SIZE1 * GRID_SIZE1))
            (GPUBufferUsage_STORAGE OR GPUBufferUsage_COPY_DST),
          WriteBuffer 2 0 (cells_of draws (GRID_SIZE1 * GRID_SIZE1)),
          CreateBuffer 4 ''Cell vertices'' 48 (GPUBufferUsage_VERTEX OR GPUBufferUsage_COPY_DST),
          WriteBuffer 4 0 cell_vertices,
          RequestAnimationFrame 1 0]\<rparr>)"
proof -
  have suc: "Suc (Suc 0) = 2" "Suc (Suc (Suc 0)) = 3" "Suc (Suc (Suc (Suc 0))) = 4"
    "Suc (Suc (Suc (Suc (Suc 0)))) = 5"
    by simp_all
  show ?thesis
    by (simp add: init1_def createGridUniformBuffer_def createTimeUniformBuffer_def
      createStateStorageBuffers_def createVertexBuffer_def random_fill_eq platform_init_def
      device_createBuffer_def queue_writeBuffer_def requestAnimationFrame_def emit_def
      Let_def byteLength_def cell_vertices_def suc)
qed

lemma createBindGroups_buffers:
  "buffer_at (createBindGroups g tb [a, b] lay ! 0) 2 = Some a"
  "buffer_at (createBindGroups g tb [a, b] lay ! 0) 3 = Some b"
  "buffer_at (createBindGroups g tb [a, b] lay ! Suc 0) 2 = Some b"
  "buffer_at (createBindGroups g tb [a, b] lay ! Suc 0) 3 = Some a"
  "length (createBindGroups g tb [a, b] lay) = 2"
  by (simp_all add: createBindGroups_def buffer_at_def js_index_def)

lemma render1_last_submit:
  "last_submit (calls (snd (Renderer1_render I T (r, p)))) =
     Some [ComputePass (simulationPipeline r) (js_index (bindGroups1 r) (bindGroupIndex1 r))
             (Math_ceil (of_nat GRID_SIZE1 / 8)) (Math_ceil (of_nat GRID_SIZE1 / 8)),
           RenderPass (cellPipeline r) (vertexBuffer1 r)
             (js_index (bindGroups1 r) (bindGroupIndex1 (fst (Renderer1_render I T (r, p)))))
             (length (vertices1 r) div 2) (GRID_SIZE1 * GRID_SIZE1)]"
  by (subst Renderer1_render_platform)
     (simp add: Let_def last_submit_append del: Renderer1_render_fields)

lemma render1_nonaliasing:
  assumes bgs: "bindGroups1 r = createBindGroups g tb [a, b] lay" and ab: "a \<noteq> b"
    and idx: "bindGroupIndex1 r < 2"
  shows "map_option nonaliasing (last_submit (calls (snd (Renderer1_render I T (r, p))))) =
           Some (\<not> flip_due I T (lastBindGroupSwitchTime r))"
proof -
  have "bindGroupIndex1 r = 0 \<or> bindGroupIndex1 r = 1" using idx by auto
  then show ?thesis
    unfolding render1_last_submit
    using ab by (auto simp: bgs createBindGroups_buffers js_index_def)
qed

lemma frames1_reachable:
  "bindGroups1 (fst (frames1 fs (init1 draws))) = createBindGroups 0 1 [2, 3] createBindGroupLayout
   \<and> bindGroupIndex1 (fst (frames1 fs (init1 draws))) < 2"
proof -
  have "bindGroupIndex1 (fst (frames1 fs (init1 draws))) = flips1 fs (init1 draws) mod 2"
    using frames1_parity [of "init1 draws" fs] by (simp add: init1_renderer)
  then show ?thesis
    by (simp add: init1_eq Renderer1_new_def)
qed

subsection \<open>The first frame\<close>

lemma Engine_start_eq:
  "Engine_start draws =
     (module_init\<lparr>awaiting := [session_locals 64 0]\<rparr>,
      \<lparr>next_buffer = 5, raf_pending = [], raf_next = 1,
       rng = (\<lambda>i. draws (i + 64 * 64)),
       calls = session_calls 64 0 (cells_of draws (64 * 64))\<rparr>)"
  by (simp add: Engine_start_def Engine_init_eq module_init_def platform_init_def)

lemma first_session_eq:
  "handle InitResumes (Engine_start draws) =
     (module_init\<lparr>engine_simulation := Some (session_sim 0), engine_renderer := Some 0,
        animationFrameId := Some 1, renderers := [session_renderer 0 0]\<rparr>,
      \<lparr>next_buffer = 5, raf_pending = [(1, 0)], raf_next = 2,
       rng = (\<lambda>i. draws (i + 64 * 64)),
       calls = session_calls 64 0 (cells_of draws (64 * 64)) @ [RequestAnimationFrame 1 0]\<rparr>)"
  by (simp add: Engine_start_eq Engine_init_resumed_eq module_init_def)

lemma first_frame_last_submit:
  "last_submit (calls (snd (run [InitResumes, AnimationFrame t] (Engine_start draws)))) =
     Some [compute_cmd module_init (fst (Renderer_render module_init t (session_renderer 0 0, platform_init draws))),
           render_cmd module_init (fst (Renderer_render module_init t (session_renderer 0 0, platform_init draws)))]"
  by (simp add: run_def first_session_eq run_callback_eq render_calls last_submit_append
      compute_cmd_def render_cmd_def module_init_def del: handle.simps(5))

lemma started_eq:
  "started draws =
     (session_renderer 0 0,
      \<lparr>next_buffer = 5, raf_pending = [(1, 0)], raf_next = 2,
       rng = (\<lambda>i. draws (i + 64 * 64)),
       calls = session_calls 64 0 (cells_of draws (64 * 64)) @ [RequestAnimationFrame 1 0]\<rparr>)"
  by (simp add: started_def first_session_eq del: handle.simps(5))

lemma render_last_submit:
  "last_submit (calls (snd (Renderer_render g t (r, p)))) =
     Some [compute_cmd g (fst (Renderer_render g t (r, p))),
           render_cmd g (fst (Renderer_render g t (r, p)))]"
  by (simp add: render_calls last_submit_append del: Renderer_render_fields)

subsection \<open>The device\<close>

lemma device_run_append:
  "device_run K (xs @ ys) s = device_run K ys (device_run K xs s)"
  by (simp add: device_run_def)

lemma device_run_Cons:
  "device_run K (x # xs) s = device_run K xs (device_step K x s)"
  by (simp add: device_run_def)

lemma device_run_Nil [simp]: "device_run K [] s = s"
  by (simp add: device_run_def)

lemma overwrite_all [simp]: "length data = length old \<Longrightarrow> overwrite old 0 data = data"
  by (simp add: overwrite_def)

lemma length_overwrite:
  "off + length data \<le> length old \<Longrightarrow> length (overwrite old off data) = length old"
  by (simp add: overwrite_def)

lemma write_binding_length:
  "map_option length (write_binding K view bg x y e s i) = map_option length (s i)"
  by (auto simp: write_binding_def split: option.splits)

lemma exec_compute_length:
  "map_option length (exec_compute K bg x y s i) = map_option length (s i)"
proof -
  have "map_option length (fold (write_binding K view bg x y) es s i) = map_option length (s i)"
    for view es
    by (induction es arbitrary: s) (simp_all add: write_binding_length)
  then show ?thesis by (simp add: exec_compute_def)
qed

lemma exec_command_length:
  "map_option length (exec_command K c s i) = map_option length (s i)"
  by (induction K c s rule: exec_command.induct) (simp_all add: exec_compute_length)

lemma exec_commands_length:
  "map_option length (fold (exec_command K) cs s i) = map_option length (s i)"
  by (induction cs arbitrary: s) (simp_all add: exec_command_length)

lemma device_step_length:
  "\<not> is_create a \<Longrightarrow> map_option length (device_step K a s i) = map_option length (s i)"
  by (cases a) (auto simp: exec_commands_length length_overwrite split: option.splits)

lemma device_run_length:
  "\<forall>a\<in>set acts. \<not> is_create a \<Longrightarrow>
     map_option length (device_run K acts s i) = map_option length (s i)"
  by (induction acts arbitrary: s) (simp_all add: device_run_Cons device_step_length)

lemma device_run_session_calls:
  "device_run K (session_calls n b cells) s =
     s(b \<mapsto> [F32 (of_nat n), F32 (of_nat n)], b + 1 \<mapsto> [U32 0],
       b + 2 \<mapsto> cell_vertices, b + 3 \<mapsto> cells, b + 4 \<mapsto> cells)"
  by (simp add: session_calls_def device_run_Cons zeroed_def cell_vertices_def overwrite_def)

lemma device_run_reset:
  assumes "map_option length (s A) = Some (length cells)"
    and "map_option length (s B) = Some (length cells)"
  shows "device_run K [WriteBuffer A 0 cells, WriteBuffer B 0 cells] s = s(A \<mapsto> cells, B \<mapsto> cells)"
  using assms by (auto simp: device_run_Cons split: option.splits)

subsection \<open>The state buffers keep their size\<close>

lemma device_state_ext:
  "calls p' = calls p @ ext \<Longrightarrow> device_state K p' = device_run K ext (device_state K p)"
  by (simp add: device_state_def device_run_append)

lemma fps_calls_no_create [simp]: "x \<in> set (fps_calls t l n) \<Longrightarrow> \<not> is_create x"
  by (auto simp: fps_calls_def split: if_splits)

lemma run_callback_ext:
  "\<exists>ext. calls (snd (run_callback t cb w)) = calls (snd w) @ ext \<and> (\<forall>x\<in>set ext. \<not> is_create x)"
proof -
  obtain i ref where cb: "cb = (i, ref)" by (cases cb)
  obtain a p where w: "w = (a, p)" by (cases w)
  show ?thesis
  proof (cases "js_index (renderers a) ref")
    case None
    then show ?thesis by (simp add: cb w run_callback_def)
  next
    case (Some r)
    have "calls (snd (run_callback t cb w)) = calls (snd (Renderer_render a t (r, p)))"
      by (simp add: cb w run_callback_def Some split_def Let_def)
    then show ?thesis
      unfolding render_calls by (auto simp: w)
  qed
qed

lemma run_callback_globals:
  "GRID_SIZE (fst (run_callback t cb w)) = GRID_SIZE (fst w)"
  by (cases w; cases cb) (simp add: run_callback_def split_def Let_def split: option.splits)

lemma callbacks_ext:
  "\<exists>ext. calls (snd (fold (run_callback t) cbs w)) = calls (snd w) @ ext
         \<and> (\<forall>x\<in>set ext. \<not> is_create x)"
proof (induction cbs arbitrary: w)
  case Nil
  then show ?case by simp
next
  case (Cons cb cbs)
  obtain e1 where e1: "calls (snd (run_callback t cb w)) = calls (snd w) @ e1"
      "\<forall>x\<in>set e1. \<not> is_create x"
    using run_callback_ext [of t cb w] by blast
  obtain e2 where e2: "calls (snd (fold (run_callback t) cbs (run_callback t cb w)))
        = calls (snd (run_callback t cb w)) @ e2" "\<forall>x\<in>set e2. \<not> is_create x"
    using Cons.IH [of "run_callback t cb w"] by blast
  have "calls (snd (fold (run_callback t) (cb # cbs) w)) = calls (snd w) @ (e1 @ e2)"
    using e1 e2 by simp
  moreover have "\<forall>x\<in>set (e1 @ e2). \<not> is_create x"
    using e1 e2 by auto
  ultimately show ?case by blast
qed

lemma run_callback_engine:
  "awaiting (fst (run_callback t cb w)) = awaiting (fst w)"
  "engine_simulation (fst (run_callback t cb w)) = engine_simulation (fst w)"
  by (cases w; cases cb; simp add: run_callback_def split_def Let_def split: option.splits)+

lemma callbacks_static:
  "GRID_SIZE (fst (fold (run_callback t) cbs w)) = GRID_SIZE (fst w)
   \<and> length (renderers (fst (fold (run_callback t) cbs w))) = length (renderers (fst w))
   \<and> awaiting (fst (fold (run_callback t) cbs w)) = awaiting (fst w)
   \<and> engine_simulation (fst (fold (run_callback t) cbs w)) = engine_simulation (fst w)"
  by (induction cbs arbitrary: w)
     (simp_all add: run_callback_globals run_callback_length run_callback_engine)

lemma dev_ok_ext:
  assumes "dev_ok K (a, p)" and "calls p' = calls p @ ext" and "\<forall>x\<in>set ext. \<not> is_create x"
    and "GRID_SIZE a' = GRID_SIZE a" and "awaiting a' = awaiting a"
    and "engine_simulation a' = engine_simulation a"
  shows "dev_ok K (a', p')"
proof -
  have "map_option length (device_state K p' i) = map_option length (device_state K p i)" for i
    unfolding device_state_ext [OF assms(2)] using assms(3) by (rule device_run_length)
  moreover have "newest_stateBuffers a' = newest_stateBuffers a"
    by (simp add: newest_stateBuffers_def assms(5,6))
  ultimately show ?thesis
    using assms(1) unfolding dev_ok_def by (simp only: assms(4,5,6) split_conv)
qed

lemma dev_ok_start: "dev_ok K (Engine_start draws)"
  by (simp add: dev_ok_def Engine_start_eq device_state_def device_run_append
      device_run_session_calls device_run_Cons module_init_def newest_stateBuffers_def
      session_locals_def)

lemma dev_ok_reset:
  assumes dok: "dev_ok K (a, p)"
  shows "dev_ok K (handle ResetClick (a, p))"
proof (cases "engine_simulation a")
  case None
  then show ?thesis using dok by simp
next
  case (Some sim)
  let ?cells = "cells_of (rng p) (GRID_SIZE a * GRID_SIZE a)"
  have "dev_ok K (a, Simulation_reset (GRID_SIZE a) sim p)"
    using dok
    by (rule dev_ok_ext [where ext = "map (\<lambda>b. WriteBuffer b 0 ?cells) (stateBuffers sim)"])
       (auto simp: Simulation_reset_eq)
  then show ?thesis
    by (simp add: Some)
qed

lemma dev_ok_frame:
  assumes dok: "dev_ok K (a, p)"
  shows "dev_ok K (handle (AnimationFrame t) (a, p))"
proof -
  define w' where "w' = fold (run_callback t) (raf_pending p) (a, p\<lparr>raf_pending := []\<rparr>)"
  obtain ext where ext: "calls (snd w') = calls p @ ext" "\<forall>x\<in>set ext. \<not> is_create x"
    using callbacks_ext [of t "raf_pending p" "(a, p\<lparr>raf_pending := []\<rparr>)"]
    unfolding w'_def by auto
  have st: "GRID_SIZE (fst w') = GRID_SIZE a" "awaiting (fst w') = awaiting a"
    "engine_simulation (fst w') = engine_simulation a"
    using callbacks_static [of t "raf_pending p" "(a, p\<lparr>raf_pending := []\<rparr>)"]
    unfolding w'_def by simp_all
  have "dev_ok K (fst w', snd w')"
    using dok ext st by (rule dev_ok_ext)
  then show ?thesis
    unfolding w'_def by simp
qed

lemma stopRendering_static:
  "renderers (fst (Engine_stopRendering (a, p))) = renderers a"
  "next_buffer (snd (Engine_stopRendering (a, p))) = next_buffer p"
  "rng (snd (Engine_stopRendering (a, p))) = rng p"
  "raf_next (snd (Engine_stopRendering (a, p))) = raf_next p"
  "GRID_SIZE (fst (Engine_stopRendering (a, p))) = GRID_SIZE a"
  "COMPUTE_MS_INTERVAL (fst (Engine_stopRendering (a, p))) = COMPUTE_MS_INTERVAL a"
  "awaiting (fst (Engine_stopRendering (a, p))) = awaiting a"
  "engine_simulation (fst (Engine_stopRendering (a, p))) = engine_simulation a"
  "engine_renderer (fst (Engine_stopRendering (a, p))) = engine_renderer a"
  "animationFrameId (fst (Engine_stopRendering (a, p))) = None"
  by (simp_all add: Engine_stopRendering_def cancelAnimationFrame_def split: option.splits)

lemma stopRendering_platform:
  "calls (snd (Engine_stopRendering (a, p))) =
     calls p @ (case animationFrameId a of Some i \<Rightarrow> [CancelAnimationFrame i] | None \<Rightarrow> [])"
  "raf_pending (snd (Engine_stopRendering (a, p))) =
     filter (\<lambda>(j, ref). Some j \<noteq> animationFrameId a) (raf_pending p)"
proof -
  have "filter (\<lambda>(j, ref). j \<noteq> i) xs = filter (\<lambda>x. fst x \<noteq> i) xs" for i :: nat and xs :: "(nat \<times> nat) list"
    by (simp add: split_def)
  then show "calls (snd (Engine_stopRendering (a, p))) =
     calls p @ (case animationFrameId a of Some i \<Rightarrow> [CancelAnimationFrame i] | None \<Rightarrow> [])"
    "raf_pending (snd (Engine_stopRendering (a, p))) =
     filter (\<lambda>(j, ref). Some j \<noteq> animationFrameId a) (raf_pending p)"
    by (simp_all add: Engine_stopRendering_def cancelAnimationFrame_def emit_def split_def
        split: option.splits)
qed

lemma handle_resize_eq:
  "handle (GridSizeInput n) (a, p) =
     Engine_init n ((fst (Engine_stopRendering (a, p)))\<lparr>GRID_SIZE := n\<rparr>,
                    snd (Engine_stopRendering (a, p)))"
  by (simp add: split_def Let_def)

lemma dev_ok_resize: "dev_ok K (handle (GridSizeInput n) (a, p))"
proof -
  define a1 where "a1 = fst (Engine_stopRendering (a, p))"
  define p1 where "p1 = snd (Engine_stopRendering (a, p))"
  have h: "handle (GridSizeInput n) (a, p) = Engine_init n (a1\<lparr>GRID_SIZE := n\<rparr>, p1)"
    unfolding a1_def p1_def by (rule handle_resize_eq)
  show ?thesis
    unfolding h Engine_init_eq dev_ok_def device_state_def
    by (simp add: device_run_append device_run_session_calls device_run_Cons
        newest_stateBuffers_def session_locals_def)
qed

lemma dev_ok_resumed:
  assumes dok: "dev_ok K (a, p)"
  shows "dev_ok K (handle InitResumes (a, p))"
proof (cases "awaiting a")
  case Nil
  then show ?thesis using dok by simp
next
  case (Cons l ls)
  define a' where "a' = fst (Engine_init_resumed l (a\<lparr>awaiting := ls\<rparr>, p))"
  define p' where "p' = snd (Engine_init_resumed l (a\<lparr>awaiting := ls\<rparr>, p))"
  have a': "GRID_SIZE a' = GRID_SIZE a" "awaiting a' = ls"
    "map_option stateBuffers (engine_simulation a') = Some (il_stateBuffers l)"
    unfolding a'_def
    by (simp_all add: Engine_init_resumed_def Let_def split_def Simulation_new_def)
  have p': "calls p' = calls p @ [RequestAnimationFrame (raf_next p) (length (renderers a))]"
    unfolding p'_def
    by (simp add: Engine_init_resumed_def Let_def split_def requestAnimationFrame_def emit_def)
  have len: "map_option length (device_state K p' i) = map_option length (device_state K p i)" for i
    unfolding device_state_ext [OF p'] by (rule device_run_length) simp
  have new: "newest_stateBuffers a' = newest_stateBuffers a"
    using a'(2,3) Cons by (auto simp: newest_stateBuffers_def split: option.splits)
  have "dev_ok K (a', p')"
    using dok a'(3) unfolding dev_ok_def split_conv new len a'(1) by auto
  then show ?thesis
    by (simp add: Cons a'_def p'_def)
qed

lemma dev_ok_handle:
  assumes dok: "dev_ok K w"
  shows "dev_ok K (handle e w)"
proof -
  obtain a p where w: "w = (a, p)" by (cases w)
  show ?thesis
  proof (cases e)
    case (AnimationFrame t)
    show ?thesis
      unfolding AnimationFrame w using dok [unfolded w] by (rule dev_ok_frame)
  next
    case ResetClick
    show ?thesis
      unfolding ResetClick w using dok [unfolded w] by (rule dev_ok_reset)
  next
    case (ComputeIntervalInput v)
    show ?thesis
      unfolding ComputeIntervalInput w using dok [unfolded w]
      by (simp add: dev_ok_def newest_stateBuffers_def)
  next
    case (GridSizeInput n)
    show ?thesis
      unfolding GridSizeInput w by (rule dev_ok_resize)
  next
    case InitResumes
    show ?thesis
      unfolding InitResumes w using dok [unfolded w] by (rule dev_ok_resumed)
  qed
qed

lemma reachable_ok:
  "world_ok (run evs (Engine_start draws)) \<and> dev_ok K (run evs (Engine_start draws))"
proof -
  have "world_ok w \<and> dev_ok K w \<Longrightarrow> world_ok (fold handle evs w) \<and> dev_ok K (fold handle evs w)"
    for w
    by (induction evs arbitrary: w) (simp_all add: world_ok_handle dev_ok_handle)
  then show ?thesis
    unfolding run_def using world_ok_start dev_ok_start by blast
qed

lemma reset_effect:
  assumes wok: "world_ok (a, p)" and dok: "dev_ok K (a, p)" and idle: "awaiting a = []"
  defines "b \<equiv> sim_time (the (engine_simulation a)) - 1"
    and "cells \<equiv> cells_of (rng p) (GRID_SIZE a * GRID_SIZE a)"
  shows "handle ResetClick (a, p) =
           (a, p\<lparr>rng := (\<lambda>i. rng p (i + GRID_SIZE a * GRID_SIZE a)),
                 calls := calls p @ [WriteBuffer (b + 3) 0 cells, WriteBuffer (b + 4) 0 cells]\<rparr>)"
    and "device_state K (snd (handle ResetClick (a, p))) =
           (device_state K p)(b + 3 \<mapsto> cells, b + 4 \<mapsto> cells)"
    and "map_option stateBuffers (engine_simulation a) = Some [b + 3, b + 4]"
proof -
  have sim: "engine_simulation a = Some (session_sim b)"
    using wok dok idle by (auto simp: world_ok_def dev_ok_def b_def split: option.splits)
  show h: "handle ResetClick (a, p) =
           (a, p\<lparr>rng := (\<lambda>i. rng p (i + GRID_SIZE a * GRID_SIZE a)),
                 calls := calls p @ [WriteBuffer (b + 3) 0 cells, WriteBuffer (b + 4) 0 cells]\<rparr>)"
    by (simp add: sim Simulation_reset_eq cells_def)
  have len: "map_option length (device_state K p (b + 3)) = Some (length cells)"
      "map_option length (device_state K p (b + 4)) = Some (length cells)"
    using dok idle unfolding dev_ok_def cells_def by (simp_all add: newest_stateBuffers_def sim)
  show "device_state K (snd (handle ResetClick (a, p))) =
           (device_state K p)(b + 3 \<mapsto> cells, b + 4 \<mapsto> cells)"
    unfolding h snd_conv
    by (subst device_state_ext [where p = p and ext = "[WriteBuffer (b + 3) 0 cells, WriteBuffer (b + 4) 0 cells]"])
       (simp_all add: device_run_reset [of "device_state K p" "b + 3" cells "b + 4", OF len])
  show "map_option stateBuffers (engine_simulation a) = Some [b + 3, b + 4]"
    by (simp add: sim)
qed

subsection \<open>Initial contents\<close>

lemmas usage_defs =
  GPUBufferUsage_STORAGE_def GPUBufferUsage_COPY_DST_def
  GPUBufferUsage_UNIFORM_def GPUBufferUsage_VERTEX_def

lemma cells_of_nth: "i < n \<Longrightarrow> cells_of d n ! i = random_cell (d i)"
  by (simp add: cells_of_def)

lemma cells_of_const: "cells_of (\<lambda>i. c) n = replicate n (random_cell c)"
  by (simp add: cells_of_def map_replicate_const)

lemma device_state_init1:
  "device_state K (snd (init1 draws)) 2 = Some (cells_of draws (GRID_SIZE1 * GRID_SIZE1))"
  "device_state K (snd (init1 draws)) 3 = Some (replicate (GRID_SIZE1 * GRID_SIZE1) (U32 0))"
  by (simp_all add: init1_eq device_state_def device_run_Cons zeroed_def)

lemma threshold_near_two_fifths: "\<bar>(1 - double_0_6) - 2 / 5\<bar> < 1 / 10 ^ 16"
  by (simp add: double_0_6_def)

lemma run_two: "run [e1, e2] w = handle e2 (handle e1 w)"
  by (simp add: run_def)

subsection \<open>Runs that differ in the time written\<close>

lemma stage_view_agree:
  assumes "\<forall>i\<in>compute_reads bg. s1 i = s2 i"
  shows "stage_view GPUShaderStage_COMPUTE bg s1 = stage_view GPUShaderStage_COMPUTE bg s2"
proof
  fix b
  show "stage_view GPUShaderStage_COMPUTE bg s1 b = stage_view GPUShaderStage_COMPUTE bg s2 b"
  proof (cases "find (\<lambda>e. binding e = b) (bgl_entries (bg_layout bg))")
    case None
    then show ?thesis by (simp add: stage_view_def)
  next
    case (Some e)
    then have e: "e \<in> set (bgl_entries (bg_layout bg))" "binding e = b"
      by (auto simp: find_Some_iff)
    show ?thesis
    proof (cases "visible_to GPUShaderStage_COMPUTE e")
      case False
      then show ?thesis by (simp add: stage_view_def Some)
    next
      case True
      show ?thesis
      proof (cases "buffer_at bg b")
        case None
        then show ?thesis by (simp add: stage_view_def Some)
      next
        case (Some i)
        have "i \<in> compute_reads bg"
          unfolding compute_reads_def using e True Some by auto
        then show ?thesis
          using assms by (simp add: stage_view_def \<open>find _ _ = Some e\<close> True Some)
      qed
    qed
  qed
qed

lemma write_binding_agree:
  assumes disj: "compute_reads bg \<inter> TB = {}" and e: "e \<in> set (bgl_entries (bg_layout bg))"
    and ag: "agree_off TB s1 s2"
  shows "agree_off TB (write_binding K view bg x y e s1) (write_binding K view bg x y e s2)"
proof (cases "visible_to GPUShaderStage_COMPUTE e \<and> buffer e = Storage")
  case False
  then show ?thesis using ag by (auto simp: write_binding_def)
next
  case True
  show ?thesis
  proof (cases "buffer_at bg (binding e)")
    case None
    then show ?thesis using ag True by (simp add: write_binding_def)
  next
    case (Some i)
    have "i \<in> compute_reads bg"
      unfolding compute_reads_def using e True Some by auto
    then have "i \<notin> TB" using disj by auto
    then have "s1 i = s2 i" using ag by (simp add: agree_off_def)
    then show ?thesis
      using ag True Some by (auto simp: write_binding_def agree_off_def split: option.splits)
  qed
qed

lemma fold_write_binding_agree:
  assumes disj: "compute_reads bg \<inter> TB = {}"
  shows "set es \<subseteq> set (bgl_entries (bg_layout bg)) \<Longrightarrow> agree_off TB s1 s2 \<Longrightarrow>
     agree_off TB (fold (write_binding K view bg x y) es s1)
                  (fold (write_binding K view bg x y) es s2)"
proof (induction es arbitrary: s1 s2)
  case Nil
  then show ?case by simp
next
  case (Cons e es)
  have "agree_off TB (write_binding K view bg x y e s1) (write_binding K view bg x y e s2)"
    using Cons.prems by (intro write_binding_agree [OF disj]) auto
  then show ?case
    using Cons.IH Cons.prems(1) by simp
qed

lemma exec_compute_agree:
  assumes disj: "compute_reads bg \<inter> TB = {}" and ag: "agree_off TB s1 s2"
  shows "agree_off TB (exec_compute K bg x y s1) (exec_compute K bg x y s2)"
proof -
  have "\<forall>i\<in>compute_reads bg. s1 i = s2 i"
    using disj ag by (auto simp: agree_off_def)
  then have "stage_view GPUShaderStage_COMPUTE bg s1 = stage_view GPUShaderStage_COMPUTE bg s2"
    by (rule stage_view_agree)
  then show ?thesis
    unfolding exec_compute_def
    using fold_write_binding_agree [OF disj _ ag, of "bgl_entries (bg_layout bg)"] by simp
qed

lemma exec_command_agree:
  "blind TB c \<Longrightarrow> agree_off TB s1 s2 \<Longrightarrow>
     agree_off TB (exec_command K c s1) (exec_command K c s2)"
  by (induction TB c rule: blind.induct) (simp_all add: exec_compute_agree)

lemma exec_commands_agree:
  "\<forall>c\<in>set cs. blind TB c \<Longrightarrow> agree_off TB s1 s2 \<Longrightarrow>
     agree_off TB (fold (exec_command K) cs s1) (fold (exec_command K) cs s2)"
  by (induction cs arbitrary: s1 s2) (simp_all add: exec_command_agree)

lemma device_step_agree:
  assumes tv: "time_variant TB a1 a2"
    and bl: "\<forall>cmds. a1 = Submit cmds \<longrightarrow> (\<forall>c\<in>set cmds. blind TB c)"
    and ag: "agree_off TB s1 s2"
  shows "agree_off TB (device_step K a1 s1) (device_step K a2 s2)"
proof (cases a1)
  case (WriteBuffer i off d)
  then obtain d' where a2: "a2 = WriteBuffer i off d'"
      and d: "if i \<in> TB then length d = length d' else d = d'"
    using tv by (auto split: action.splits)
  show ?thesis
  proof (cases "i \<in> TB")
    case True
    then show ?thesis
      using ag by (auto simp: WriteBuffer a2 agree_off_def split: option.splits)
  next
    case False
    then have "s1 i = s2 i" "d = d'" using ag d by (simp_all add: agree_off_def)
    then show ?thesis
      using ag by (auto simp: WriteBuffer a2 agree_off_def split: option.splits)
  qed
next
  case (Submit cmds)
  then have "a2 = Submit cmds" using tv by simp
  then show ?thesis
    using bl ag by (simp add: Submit exec_commands_agree)
qed (use tv ag in \<open>auto simp: agree_off_def\<close>)

lemma device_run_agree:
  "list_all2 (time_variant TB) tr tr' \<Longrightarrow> trace_blind TB tr \<Longrightarrow> agree_off TB s1 s2 \<Longrightarrow>
     agree_off TB (device_run K tr s1) (device_run K tr' s2)"
proof (induction tr tr' arbitrary: s1 s2 rule: list_all2_induct)
  case Nil
  then show ?case by simp
next
  case (Cons a as b bs)
  have "agree_off TB (device_step K a s1) (device_step K b s2)"
    using Cons.hyps(1) Cons.prems by (intro device_step_agree) (auto simp: trace_blind_def)
  moreover have "trace_blind TB as"
    using Cons.prems(1) by (auto simp: trace_blind_def)
  ultimately show ?case
    using Cons.IH by (simp add: device_run_Cons)
qed

lemma retime_variant: "list_all2 (time_variant TB) tr (map (retime TB v) tr)"
proof (induction tr)
  case Nil
  then show ?case by simp
next
  case (Cons a tr)
  have "time_variant TB a (retime TB v a)" by (cases a) simp_all
  then show ?case using Cons by simp
qed

lemmas stage_defs =
  GPUShaderStage_VERTEX_def GPUShaderStage_FRAGMENT_def GPUShaderStage_COMPUTE_def

subsection \<open>What the compute passes of a run can reach\<close>

lemma session_compute_reads:
  "i < 2 \<Longrightarrow> compute_reads (bindGroups (session_sim b) ! i) \<subseteq> {b, b + 3, b + 4}"
proof -
  assume "i < 2"
  then have "i = 0 \<or> i = 1" by auto
  then show ?thesis
    by (auto simp: compute_reads_def session_bindGroups PipelineFactory_createBindGroupLayout_def
        visible_to_def buffer_at_def stage_defs)
qed

lemma session_bg_blind:
  assumes "session_bg bg" and "\<forall>t\<in>TB. t mod 5 = 1"
  shows "compute_reads bg \<inter> TB = {}"
proof -
  have "\<exists>b i. 5 dvd b \<and> i < 2 \<and> bg = bindGroups (session_sim b) ! i"
  proof (rule session_bg_cases [OF assms(1)])
    fix b assume "5 dvd b" "bg = bindGroups (session_sim b) ! 0"
    then show ?thesis by (intro exI [of _ b] exI [of _ 0]) simp
  next
    fix b assume "5 dvd b" "bg = bindGroups (session_sim b) ! 1"
    then show ?thesis by (intro exI [of _ b] exI [of _ 1]) simp
  qed
  then obtain b i where b: "5 dvd b" "i < 2" "bg = bindGroups (session_sim b) ! i"
    by blast
  have "compute_reads bg \<subseteq> {b, b + 3, b + 4}"
    unfolding b(3) using b(2) by (rule session_compute_reads)
  moreover have "j mod 5 \<noteq> 1" if "j \<in> {b, b + 3, b + 4}" for j
    using that b(1) by (auto simp: mod_add_right_eq dvd_eq_mod_eq_0)
  ultimately show ?thesis
    using assms(2) by blast
qed

lemma batch_ok_blind:
  "batch_ok cmds \<Longrightarrow> \<forall>t\<in>TB. t mod 5 = 1 \<Longrightarrow> \<forall>c\<in>set cmds. blind TB c"
proof (induction cmds rule: batch_ok.induct)
  case (1 cp bg x y rp vb bg' n m)
  then show ?case using session_bg_blind [of bg TB] by auto
qed simp_all

lemma reachable_blind:
  assumes "world_ok (a, p)"
  shows "trace_blind (timeBuffer ` set (renderers a)) (calls p)"
proof -
  have "\<forall>t\<in>timeBuffer ` set (renderers a). t mod 5 = 1"
  proof
    fix t assume "t \<in> timeBuffer ` set (renderers a)"
    then obtain k where "k < length (renderers a)" "t = timeBuffer (renderers a ! k)"
      by (auto simp: in_set_conv_nth)
    then show "t mod 5 = 1"
      using assms by (simp add: world_ok_def session_ok_def)
  qed
  then have "\<forall>c\<in>set cmds. blind (timeBuffer ` set (renderers a)) c" if "batch_ok cmds" for cmds
    using that by (intro batch_ok_blind)
  then show ?thesis
    using assms unfolding trace_blind_def world_ok_def by auto
qed

lemma createBindGroups_compute_reads:
  "bg \<in> set (createBindGroups 0 1 [2, 3] createBindGroupLayout) \<Longrightarrow> compute_reads bg \<inter> {1} = {}"
  by (auto simp: compute_reads_def createBindGroups_def createBindGroupLayout_def
      visible_to_def buffer_at_def js_index_def stage_defs)

lemma js_index_blind:
  assumes "\<forall>bg\<in>set bgs. compute_reads bg \<inter> TB = {}"
  shows "blind TB (ComputePass cp (js_index bgs i) x y)"
  using assms by (cases "i < length bgs") (simp_all add: js_index_def)

lemma render1_blind:
  assumes bgs: "\<forall>bg\<in>set (bindGroups1 r). compute_reads bg \<inter> TB = {}"
    and tr: "trace_blind TB (calls p)"
  shows "trace_blind TB (calls (snd (Renderer1_render I t (r, p))))"
proof -
  have c: "blind TB (ComputePass (simulationPipeline r)
      (js_index (bindGroups1 r) (bindGroupIndex1 r))
      (Math_ceil (of_nat GRID_SIZE1 / 8)) (Math_ceil (of_nat GRID_SIZE1 / 8)))"
    using bgs by (rule js_index_blind)
  show ?thesis
    unfolding trace_blind_def Renderer1_render_platform Let_def
    using tr c by (auto simp: trace_blind_def simp del: Renderer1_render_fields)
qed

lemma frames1_blind_gen:
  "\<forall>bg\<in>set (bindGroups1 (fst w)). compute_reads bg \<inter> TB = {} \<Longrightarrow>
   trace_blind TB (calls (snd w)) \<Longrightarrow>
     trace_blind TB (calls (snd (frames1 fs w))) \<and> timeBuffer1 (fst (frames1 fs w)) = timeBuffer1 (fst w)"
proof (induction fs arbitrary: w)
  case Nil
  then show ?case by simp
next
  case (Cons f fs)
  obtain I t where f: "f = (I, t)" by (cases f)
  let ?w' = "Renderer1_render I t (fst w, (snd w)\<lparr>raf_pending := []\<rparr>)"
  have "trace_blind TB (calls (snd ?w'))"
    using Cons.prems by (intro render1_blind) simp_all
  moreover have "\<forall>bg\<in>set (bindGroups1 (fst ?w')). compute_reads bg \<inter> TB = {}"
    using Cons.prems(1) by simp
  ultimately show ?case
    using Cons.IH [of ?w'] by (simp add: f frames1_Cons)
qed

lemma frames1_blind:
  "trace_blind {1} (calls (snd (frames1 fs (init1 draws))))
   \<and> timeBuffer1 (fst (frames1 fs (init1 draws))) = 1"
proof -
  have "trace_blind {1} (calls (snd (init1 draws)))"
    by (simp add: trace_blind_def init1_eq)
  moreover have "\<forall>bg\<in>set (bindGroups1 (fst (init1 draws))). compute_reads bg \<inter> {1} = {}"
    using createBindGroups_compute_reads by (simp add: init1_eq Renderer1_new_def)
  ultimately show ?thesis
    using frames1_blind_gen [of "init1 draws" "{1}" fs]
    by (simp add: init1_eq Renderer1_new_def)
qed

lemma fps_calls_no_write [simp]: "filter (is_write_to b) (fps_calls t l n) = []"
  by (simp add: fps_calls_def)

lemma agree_off_refl [simp]: "agree_off TB s s"
  by (simp add: agree_off_def)

lemma first_frame_time_buffers:
  "timeBuffer ` set (renderers (fst (run [InitResumes, AnimationFrame t] (Engine_start draws)))) = {1}"
  by (simp add: run_def first_session_eq run_callback_eq session_renderer_def Renderer_new_def
      del: handle.simps(5))

subsection \<open>Resizing, and a reset while a call of init waits\<close>

lemma exec_compute_session1:
  "s (b + 3) = Some old \<Longrightarrow>
     exec_compute K (bindGroups (session_sim b) ! 1) x y s =
       s(b + 3 \<mapsto> map (K (stage_view GPUShaderStage_COMPUTE (bindGroups (session_sim b) ! 1) s) x y 3)
                     [0..<length old])"
  by (simp add: exec_compute_def session_bindGroups PipelineFactory_createBindGroupLayout_def
      write_binding_def visible_to_def buffer_at_def stage_defs)

lemma resize_eq:
  "handle (GridSizeInput n) (a, p) =
     ((fst (Engine_stopRendering (a, p)))
        \<lparr>GRID_SIZE := n,
         awaiting := awaiting a @ [session_locals n (next_buffer p)]\<rparr>,
      (snd (Engine_stopRendering (a, p)))
        \<lparr>next_buffer := next_buffer p + 5,
         rng := (\<lambda>i. rng p (i + n * n)),
         calls := calls p
           @ (case animationFrameId a of Some i \<Rightarrow> [CancelAnimationFrame i] | None \<Rightarrow> [])
           @ session_calls n (next_buffer p) (cells_of (rng p) (n * n))\<rparr>)"
  unfolding handle_resize_eq Engine_init_eq
  by (simp add: stopRendering_static stopRendering_platform)

lemma resize_device:
  "device_state K (snd (handle (GridSizeInput n) (a, p))) =
     (device_state K p)
       (next_buffer p \<mapsto> [F32 (of_nat n), F32 (of_nat n)],
        next_buffer p + 1 \<mapsto> [U32 0], next_buffer p + 2 \<mapsto> cell_vertices,
        next_buffer p + 3 \<mapsto> cells_of (rng p) (n * n),
        next_buffer p + 4 \<mapsto> cells_of (rng p) (n * n))"
proof -
  let ?ext = "(case animationFrameId a of Some i \<Rightarrow> [CancelAnimationFrame i] | None \<Rightarrow> [])
           @ session_calls n (next_buffer p) (cells_of (rng p) (n * n))"
  have "calls (snd (handle (GridSizeInput n) (a, p))) = calls p @ ?ext"
    unfolding resize_eq by simp
  then have "device_state K (snd (handle (GridSizeInput n) (a, p))) =
      device_run K ?ext (device_state K p)"
    by (rule device_state_ext)
  then show ?thesis
    by (simp add: device_run_append device_run_session_calls device_run_Cons
        split: option.splits)
qed

lemma reset_partial:
  assumes sim: "engine_simulation a = Some (session_sim b)"
    and o3: "device_state K p (b + 3) = Some o3" and o4: "device_state K p (b + 4) = Some o4"
    and len: "GRID_SIZE a * GRID_SIZE a \<le> length o3" "GRID_SIZE a * GRID_SIZE a \<le> length o4"
  defines "cells \<equiv> cells_of (rng p) (GRID_SIZE a * GRID_SIZE a)"
  shows "device_state K (snd (handle ResetClick (a, p))) (b + 3)
           = Some (cells @ drop (GRID_SIZE a * GRID_SIZE a) o3)"
    and "device_state K (snd (handle ResetClick (a, p))) (b + 4)
           = Some (cells @ drop (GRID_SIZE a * GRID_SIZE a) o4)"
proof -
  have c: "calls (snd (handle ResetClick (a, p)))
      = calls p @ [WriteBuffer (b + 3) 0 cells, WriteBuffer (b + 4) 0 cells]"
    by (simp add: sim Simulation_reset_eq cells_def)
  have d: "device_state K (snd (handle ResetClick (a, p)))
      = device_run K [WriteBuffer (b + 3) 0 cells, WriteBuffer (b + 4) 0 cells] (device_state K p)"
    using c by (rule device_state_ext)
  show "device_state K (snd (handle ResetClick (a, p))) (b + 3)
           = Some (cells @ drop (GRID_SIZE a * GRID_SIZE a) o3)"
    unfolding d using o3 o4 len by (simp add: device_run_Cons overwrite_def cells_def)
  show "device_state K (snd (handle ResetClick (a, p))) (b + 4)
           = Some (cells @ drop (GRID_SIZE a * GRID_SIZE a) o4)"
    unfolding d using o3 o4 len by (simp add: device_run_Cons overwrite_def cells_def)
qed

lemma first_frame_world:
  defines "W \<equiv> \<lambda>draws. run [InitResumes, AnimationFrame 100] (Engine_start draws)"
  shows "GRID_SIZE (fst (W draws)) = 64"
    and "engine_simulation (fst (W draws)) = Some (session_sim 0)"
    and "awaiting (fst (W draws)) = []"
    and "animationFrameId (fst (W draws)) = Some 1"
    and "next_buffer (snd (W draws)) = 5"
    and "rng (snd (W draws)) = (\<lambda>i. draws (i + 4096))"
    and "map fst (raf_pending (snd (W draws))) = [2]"
  unfolding W_def
  by (simp_all add: run_def first_session_eq run_callback_eq module_init_def
      del: handle.simps(5))

lemma first_frame_device:
  defines "W \<equiv> \<lambda>draws. run [InitResumes, AnimationFrame 100] (Engine_start draws)"
  shows "\<exists>view. device_state K (snd (W draws)) 3 = Some (map (K view 8 8 3) [0..<4096])"
    and "device_state K (snd (W draws)) 4 = Some (cells_of draws 4096)"
proof -
  let ?p1 = "\<lparr>next_buffer = 5, raf_pending = [], raf_next = 2,
       rng = (\<lambda>i. draws (i + 64 * 64)),
       calls = session_calls 64 0 (cells_of draws (64 * 64)) @ [RequestAnimationFrame 1 0]\<rparr>"
  let ?a1 = "module_init\<lparr>engine_simulation := Some (session_sim 0), engine_renderer := Some 0,
        animationFrameId := Some 1, renderers := [session_renderer 0 0]\<rparr>"
  let ?r' = "fst (Renderer_render ?a1 100 (session_renderer 0 0, ?p1))"
  have idx: "bindGroupIndex ?r' = 1" "simulation ?r' = session_sim 0"
    by (simp_all add: module_init_def flip_due_def session_renderer_def Renderer_new_def)
  have C: "compute_cmd ?a1 ?r' = ComputePass (computePipeline ?r') (Some (bindGroups (session_sim 0) ! 1)) 8 8"
    unfolding compute_cmd_def idx
    by (simp add: session_js_index Math_ceil_def module_init_def del: Renderer_render_fields)
  have calls: "calls (snd (W draws)) = session_calls 64 0 (cells_of draws 4096) @
      [RequestAnimationFrame 1 0, Encode (compute_cmd ?a1 ?r'), Encode (render_cmd ?a1 ?r'),
       WriteBuffer 1 0 [F32 (1 / 10)], Submit [compute_cmd ?a1 ?r', render_cmd ?a1 ?r'],
       RequestAnimationFrame 2 0]"
    unfolding W_def
    by (simp add: run_def first_session_eq run_callback_eq render_calls fps_calls_def
        session_renderer_def Renderer_new_def del: handle.simps(5) Renderer_render_fields)
  define s0 where "s0 = device_step K (WriteBuffer 1 0 [F32 (1 / 10)])
      (device_run K (session_calls 64 0 (cells_of draws 4096)) (\<lambda>i. None))"
  have s0: "s0 3 = Some (cells_of draws 4096)" "s0 4 = Some (cells_of draws 4096)"
    unfolding s0_def by (simp_all add: device_run_session_calls)
  have dev: "device_state K (snd (W draws)) =
     exec_compute K (bindGroups (session_sim 0) ! 1) 8 8 s0"
    unfolding device_state_def calls s0_def C render_cmd_def
    by (simp add: device_run_append device_run_Cons del: Renderer_render_fields device_step.simps(2))
  have e: "exec_compute K (bindGroups (session_sim 0) ! 1) 8 8 s0 =
      s0(3 \<mapsto> map (K (stage_view GPUShaderStage_COMPUTE (bindGroups (session_sim 0) ! 1) s0) 8 8 3)
                  [0..<4096])"
    using exec_compute_session1 [of s0 0 "cells_of draws 4096" K 8 8] s0(1) by simp
  show "\<exists>view. device_state K (snd (W draws)) 3 = Some (map (K view 8 8 3) [0..<4096])"
    unfolding dev e
    by (rule exI [of _ "stage_view GPUShaderStage_COMPUTE (bindGroups (session_sim 0) ! 1) s0"])
       simp
  show "device_state K (snd (W draws)) 4 = Some (cells_of draws 4096)"
    unfolding dev e using s0(2) by simp
qed


lemma run_snoc: "run (evs @ [e]) w = handle e (run evs w)"
  by (simp add: run_def)

lemma resize_window:
  defines "W \<equiv> \<lambda>draws. run [InitResumes, AnimationFrame 100, GridSizeInput 32] (Engine_start draws)"
  shows "GRID_SIZE (fst (W draws)) = 32"
    and "engine_simulation (fst (W draws)) = Some (session_sim 0)"
    and "awaiting (fst (W draws)) = [session_locals 32 5]"
    and "\<exists>view. device_state K (snd (W draws)) 3 = Some (map (K view 8 8 3) [0..<4096])"
    and "device_state K (snd (W draws)) 4 = Some (cells_of draws 4096)"
proof -
  obtain a2 p2 where w2: "run [InitResumes, AnimationFrame 100] (Engine_start draws) = (a2, p2)"
    by (cases "run [InitResumes, AnimationFrame 100] (Engine_start draws)")
  have W: "W draws = handle (GridSizeInput 32) (a2, p2)"
    unfolding W_def using run_snoc [of "[InitResumes, AnimationFrame 100]" "GridSizeInput 32"]
    by (simp add: w2)
  note ff = first_frame_world [where draws = draws, unfolded w2 fst_conv snd_conv]
  show "GRID_SIZE (fst (W draws)) = 32" "engine_simulation (fst (W draws)) = Some (session_sim 0)"
    "awaiting (fst (W draws)) = [session_locals 32 5]"
    unfolding W resize_eq by (simp_all add: ff stopRendering_static)
  have d: "device_state K (snd (W draws)) i = device_state K p2 i" if "i < 5" for i
    unfolding W resize_device using that by (simp add: ff)
  show "\<exists>view. device_state K (snd (W draws)) 3 = Some (map (K view 8 8 3) [0..<4096])"
    using first_frame_device(1) [where K = K and draws = draws] by (simp add: d w2)
  show "device_state K (snd (W draws)) 4 = Some (cells_of draws 4096)"
    using first_frame_device(2) [where K = K and draws = draws] by (simp add: d w2)
qed

lemma run_three: "run [e1, e2, e3] w = handle e3 (handle e2 (handle e1 w))"
  by (simp add: run_def)

lemma resize_before_first_frame:
  "run [InitResumes, GridSizeInput 32] (Engine_start draws) =
     (module_init\<lparr>GRID_SIZE := 32, engine_simulation := Some (session_sim 0),
        engine_renderer := Some 0, animationFrameId := None,
        renderers := [session_renderer 0 0], awaiting := [session_locals 32 5]\<rparr>,
      \<lparr>next_buffer = 10, raf_pending = [], raf_next = 2,
       rng = (\<lambda>i. draws (i + 64 * 64 + 32 * 32)),
       calls = session_calls 64 0 (cells_of draws (64 * 64))
         @ [RequestAnimationFrame 1 0, CancelAnimationFrame 1]
         @ session_calls 32 5 (cells_of (\<lambda>i. draws (i + 64 * 64)) (32 * 32))\<rparr>)"
  unfolding run_two first_session_eq resize_eq
  by (simp add: Engine_stopRendering_def cancelAnimationFrame_def emit_def module_init_def)

lemma stale_frame_request_survives_resize:
  "map snd (raf_pending (snd (run [InitResumes, AnimationFrame 4990, GridSizeInput 32, InitResumes]
       (Engine_start draws)))) = [0, 1]"
proof -
  have eq: "run [InitResumes, AnimationFrame 4990, GridSizeInput 32, InitResumes] (Engine_start draws)
      = handle InitResumes (handle (GridSizeInput 32)
          (handle (AnimationFrame 4990) (handle InitResumes (Engine_start draws))))"
    by (simp add: run_def)
  show ?thesis
    unfolding eq first_session_eq
    by (simp add: run_callback_eq Engine_stopRendering_def cancelAnimationFrame_def
        Engine_init_eq Engine_init_resumed_eq emit_def module_init_def
        session_renderer_def Renderer_new_def)
qed

lemma reset_when_no_init_waits:
  "(let (a, p) = run evs (Engine_start draws);
        (a', p') = handle ResetClick (a, p);
        n = GRID_SIZE a;
        cells = cells_of (rng p) (n * n);
        bufs = stateBuffers (the (engine_simulation a))
    in awaiting a = [] \<longrightarrow>
       a' = a
       \<and> next_buffer p' = next_buffer p \<and> raf_pending p' = raf_pending p
       \<and> raf_next p' = raf_next p \<and> rng p' = (\<lambda>i. rng p (i + n * n))
       \<and> length bufs = 2 \<and> bufs ! 0 \<noteq> bufs ! 1
       \<and> calls p' = calls p @ [WriteBuffer (bufs ! 0) 0 cells, WriteBuffer (bufs ! 1) 0 cells]
       \<and> map_option length (device_state K p (bufs ! 0)) = Some (n * n)
       \<and> map_option length (device_state K p (bufs ! 1)) = Some (n * n)
       \<and> length cells = n * n
       \<and> (\<forall>i<n * n. cells ! i = (if rng p i > double_0_6 then U32 1 else U32 0))
       \<and> device_state K p' = (device_state K p)(bufs ! 0 \<mapsto> cells, bufs ! 1 \<mapsto> cells))"
proof -
  obtain a p where w: "run evs (Engine_start draws) = (a, p)"
    by (cases "run evs (Engine_start draws)")
  have ok: "world_ok (a, p)" "dev_ok K (a, p)"
    using reachable_ok [of evs draws K] by (simp_all add: w)
  have "?thesis" if idle: "awaiting a = []"
  proof -
    note eff = reset_effect [OF ok idle]
    define b where "b = sim_time (the (engine_simulation a)) - 1"
    have sim: "engine_simulation a = Some (session_sim b)"
      using ok idle by (auto simp: world_ok_def dev_ok_def b_def split: option.splits)
    have len: "map_option length (device_state K p (b + 3)) = Some (GRID_SIZE a * GRID_SIZE a)"
        "map_option length (device_state K p (b + 4)) = Some (GRID_SIZE a * GRID_SIZE a)"
      using ok(2) idle by (simp_all add: dev_ok_def newest_stateBuffers_def sim)
    show ?thesis
      unfolding w Let_def split_conv
      using eff(2) len
      by (simp add: eff(1) sim cells_of_nth random_cell_def b_def [symmetric] del: handle.simps)
  qed
  then show ?thesis
    by (auto simp: w Let_def)
qed

section \<open>The claims\<close>

subsection \<open>C1\<close>

text \<open>
  C1, as amended. In the class-based variant, in every batch submitted in any run the
  buffer the compute pass writes (binding 3 of its bind group) is another buffer than
  the one the render pass reads (binding 2 of its bind group). In the earlier variant
  this holds at exactly the ticks at which no flip is due: when the flip is due, the
  render pass reads the buffer that the compute pass of the same tick has written.
\<close>

theorem render_reads_other_buffer:
  "(\<forall>cmds. Submit cmds \<in> set (calls (snd (run evs (Engine_start draws)))) \<longrightarrow> nonaliasing cmds)
   \<and> (let (r, p) = frames1 fs (init1 draws)
       in map_option nonaliasing (last_submit (calls (snd (Renderer1_render I T (r, p))))) =
            Some (\<not> flip_due I T (lastBindGroupSwitchTime r)))"
proof
  have "world_ok (run evs (Engine_start draws))"
    by (rule world_ok_reachable)
  then show "\<forall>cmds. Submit cmds \<in> set (calls (snd (run evs (Engine_start draws)))) \<longrightarrow> nonaliasing cmds"
    by (auto simp: world_ok_def split_def intro: batch_ok_nonaliasing)
next
  obtain r p where rp: "frames1 fs (init1 draws) = (r, p)"
    by (cases "frames1 fs (init1 draws)")
  have "bindGroups1 r = createBindGroups 0 1 [2, 3] createBindGroupLayout" "bindGroupIndex1 r < 2"
    using frames1_reachable [of fs draws] by (simp_all add: rp)
  then have "map_option nonaliasing (last_submit (calls (snd (Renderer1_render I T (r, p))))) =
            Some (\<not> flip_due I T (lastBindGroupSwitchTime r))"
    using render1_nonaliasing [of r 0 1 2 3 createBindGroupLayout I T p] by simp
  then show "let (r, p) = frames1 fs (init1 draws)
       in map_option nonaliasing (last_submit (calls (snd (Renderer1_render I T (r, p))))) =
            Some (\<not> flip_due I T (lastBindGroupSwitchTime r))"
    by (simp add: rp)
qed

theorem render_reads_other_buffer_witness:
  "nonaliasing (the (last_submit (calls (snd (run [InitResumes, AnimationFrame 100] (Engine_start (\<lambda>i. 0)))))))
   \<and> map_option nonaliasing
        (last_submit (calls (snd (Renderer1_render 100 50 (frames1 [] (init1 (\<lambda>i. 0))))))) = Some True"
proof -
  let ?tr = "calls (snd (run [InitResumes, AnimationFrame 100] (Engine_start (\<lambda>i. 0))))"
  have "last_submit ?tr = Some (the (last_submit ?tr))"
    by (simp add: first_frame_last_submit)
  then have "Submit (the (last_submit ?tr)) \<in> set ?tr"
    by (rule last_submit_mem)
  then show ?thesis
    using render_reads_other_buffer [of "[InitResumes, AnimationFrame 100]" "\<lambda>i. 0" "[]" 100 50]
    by (simp add: split_def flip_due_def init1_renderer)
qed

theorem render_reads_written_buffer_counterexample:
  "map_option nonaliasing
     (last_submit (calls (snd (frames1 [(100, 100)] (init1 (\<lambda>i. 0)))))) = Some False"
proof -
  have "bindGroups1 (fst (init1 (\<lambda>i. 0))) = createBindGroups 0 1 [2, 3] createBindGroupLayout"
    by (simp add: init1_eq Renderer1_new_def)
  then have "map_option nonaliasing
      (last_submit (calls (snd (Renderer1_render 100 100
          (fst (init1 (\<lambda>i. 0)), (snd (init1 (\<lambda>i. 0)))\<lparr>raf_pending := []\<rparr>))))) =
      Some (\<not> flip_due 100 100 (lastBindGroupSwitchTime (fst (init1 (\<lambda>i. 0)))))"
    using render1_nonaliasing [of "fst (init1 (\<lambda>i. 0))" 0 1 2 3 createBindGroupLayout 100 100
        "(snd (init1 (\<lambda>i. 0)))\<lparr>raf_pending := []\<rparr>"]
    by (simp add: init1_renderer)
  then show ?thesis
    by (simp add: frames1_Cons flip_due_def init1_renderer)
qed

subsection \<open>C2\<close>

text \<open>
  C2, as amended. In the class-based variant every call of \<^verbatim>\<open>render\<close> decides the flip
  first, then records the compute pass and the render pass with the bind group of the
  direction just decided, then writes the time uniform, then submits the two passes as
  one batch, then requests the next frame; before all that \<^verbatim>\<open>updateFPS\<close> may write the
  frame rate to the page. In the earlier variant the compute pass is recorded with the
  direction before the flip, then the time uniform is written, then the flip is decided,
  then the render pass is recorded with the direction after the flip, and then the batch
  is submitted and the next frame requested.
\<close>

theorem render_call_order:
  "(let (r', p') = Renderer_render g T (r, p);
        bg = js_index (bindGroups (simulation r)) (bindGroupIndex r');
        c = ComputePass (computePipeline r) bg
              (Math_ceil (of_nat (GRID_SIZE g) / 8)) (Math_ceil (of_nat (GRID_SIZE g) / 8));
        d = RenderPass (renderPipeline r) (vertexBuffer r) bg
              (length (vertices r) div 2) (GRID_SIZE g * GRID_SIZE g)
    in bindGroupIndex r' =
         (if flip_due (COMPUTE_MS_INTERVAL g) T (lastSwitch r)
          then (bindGroupIndex r + 1) mod 2 else bindGroupIndex r)
       \<and> calls p' = calls p @ fps_calls T (lastFrame r) (frameCount r) @
           [Encode c, Encode d, WriteBuffer (timeBuffer r) 0 [F32 (of_int T / 1000)],
            Submit [c, d], RequestAnimationFrame (raf_next p) (self r)])
   \<and> (let (r1', p1') = Renderer1_render I T (r1, p);
           c = ComputePass (simulationPipeline r1)
                 (js_index (bindGroups1 r1) (bindGroupIndex1 r1))
                 (Math_ceil (of_nat GRID_SIZE1 / 8)) (Math_ceil (of_nat GRID_SIZE1 / 8));
           d = RenderPass (cellPipeline r1) (vertexBuffer1 r1)
                 (js_index (bindGroups1 r1) (bindGroupIndex1 r1'))
                 (length (vertices1 r1) div 2) (GRID_SIZE1 * GRID_SIZE1)
       in bindGroupIndex1 r1' =
            (if flip_due I T (lastBindGroupSwitchTime r1)
             then (bindGroupIndex1 r1 + 1) mod length (bindGroups1 r1) else bindGroupIndex1 r1)
          \<and> calls p1' = calls p @ [Encode c] @ fps_calls T (lastFrameTime r1) (frameCount1 r1) @
              [WriteBuffer (timeBuffer1 r1) 0 [F32 (of_int T / 1000)], Encode d,
               Submit [c, d], RequestAnimationFrame (raf_next p) 0])"
proof -
  have a: "calls (snd (Renderer_render g T (r, p))) =
      calls p @ fps_calls T (lastFrame r) (frameCount r) @
       [Encode (compute_cmd g (fst (Renderer_render g T (r, p)))),
        Encode (render_cmd g (fst (Renderer_render g T (r, p)))),
        WriteBuffer (timeBuffer r) 0 [F32 (of_int T / 1000)],
        Submit [compute_cmd g (fst (Renderer_render g T (r, p))),
                render_cmd g (fst (Renderer_render g T (r, p)))],
        RequestAnimationFrame (raf_next p) (self r)]"
    by (subst Renderer_render_platform) (simp add: Let_def)
  have b: "calls (snd (Renderer1_render I T (r1, p))) =
      calls p @ [Encode (ComputePass (simulationPipeline r1)
                 (js_index (bindGroups1 r1) (bindGroupIndex1 r1))
                 (Math_ceil (of_nat GRID_SIZE1 / 8)) (Math_ceil (of_nat GRID_SIZE1 / 8)))] @
       fps_calls T (lastFrameTime r1) (frameCount1 r1) @
       [WriteBuffer (timeBuffer1 r1) 0 [F32 (of_int T / 1000)],
        Encode (RenderPass (cellPipeline r1) (vertexBuffer1 r1)
                 (js_index (bindGroups1 r1) (bindGroupIndex1 (fst (Renderer1_render I T (r1, p)))))
                 (length (vertices1 r1) div 2) (GRID_SIZE1 * GRID_SIZE1)),
        Submit [ComputePass (simulationPipeline r1)
                 (js_index (bindGroups1 r1) (bindGroupIndex1 r1))
                 (Math_ceil (of_nat GRID_SIZE1 / 8)) (Math_ceil (of_nat GRID_SIZE1 / 8)),
                RenderPass (cellPipeline r1) (vertexBuffer1 r1)
                 (js_index (bindGroups1 r1) (bindGroupIndex1 (fst (Renderer1_render I T (r1, p)))))
                 (length (vertices1 r1) div 2) (GRID_SIZE1 * GRID_SIZE1)],
        RequestAnimationFrame (raf_next p) 0]"
    by (subst Renderer1_render_platform) (simp add: Let_def)
  show ?thesis
    using a b
    by (simp add: split_def Let_def compute_cmd_def render_cmd_def)
qed

theorem render_call_order_witness:
  "map_option same_bind_group
     (last_submit (calls (snd (Renderer_render \<lparr>GRID_SIZE = 64, COMPUTE_MS_INTERVAL = 100\<rparr> 100
        (fst (started (\<lambda>i. 0)), snd (started (\<lambda>i. 0))))))) = Some True
   \<and> bindGroupIndex (fst (Renderer_render \<lparr>GRID_SIZE = 64, COMPUTE_MS_INTERVAL = 100\<rparr> 100
        (fst (started (\<lambda>i. 0)), snd (started (\<lambda>i. 0))))) = 1
   \<and> map_option same_bind_group
     (last_submit (calls (snd (Renderer1_render 200 100
        (fst (init1 (\<lambda>i. 0)), snd (started (\<lambda>i. 0))))))) = Some True"
  using render_call_order [of "\<lparr>GRID_SIZE = 64, COMPUTE_MS_INTERVAL = 100\<rparr>" 100
      "fst (started (\<lambda>i. 0))" "snd (started (\<lambda>i. 0))" 200 "fst (init1 (\<lambda>i. 0))"]
  by (simp add: split_def Let_def last_submit_append started_eq session_renderer_def
      Renderer_new_def flip_due_def session_js_index init1_eq Renderer1_new_def
      createBindGroups_def js_index_def)

theorem passes_use_different_bind_groups_counterexample:
  "map_option same_bind_group
     (last_submit (calls (snd (frames1 [(100, 100)] (init1 (\<lambda>i. 0)))))) = Some False"
  by (simp add: frames1_Cons render1_last_submit init1_eq Renderer1_new_def flip_due_def
      createBindGroups_def js_index_def)

subsection \<open>C3\<close>

text \<open>
  C3, as amended. Let the interval \<open>I\<close> be fixed and positive, the ticks in ascending order
  with each at most \<open>g\<close> after the one before, and \<open>D\<close> the last timestamp minus the first.
  Then the number of flips is at most \<open>\<lfloor>D / I\<rfloor> + 1\<close>, and at least \<open>\<lfloor>D / (I + g)\<rfloor>\<close> when the
  last flip before the stream was not after its first tick. For a new \<^verbatim>\<open>Renderer\<close> and a
  first timestamp from 0 on the number of flips is at most the last timestamp divided by
  \<open>I\<close>, and at least the last timestamp divided by \<open>I + g\<close> when the first timestamp is at
  most \<open>g\<close>. The lower bound depends on the spacing because a flip waits for the first
  tick at or after the interval: ticks every 40 ms from 0 to 1000 with \<open>I = 100\<close> flip at
  120, 240, ..., 960, eight times. Of the two streams that fit the timestamps the
  scenario names, the ticks \<open>\<lfloor>50 k / 3\<rfloor>\<close> give ten flips with \<open>I = 100\<close>, and the ticks
  \<open>\<lfloor>83 k / 5\<rfloor>\<close> up to 996 followed by 1016 give nine.
\<close>

theorem flips_between_spacing_bounds:
  "0 < I \<Longrightarrow> 0 \<le> g \<Longrightarrow> spaced g ts \<Longrightarrow> ts \<noteq> [] \<Longrightarrow>
     int (flips (at_interval n I ts) w) \<le> (last ts - hd ts) div I + 1
     \<and> (lastSwitch (fst w) \<le> hd ts \<longrightarrow>
          (last ts - hd ts) div (I + g) \<le> int (flips (at_interval n I ts) w))
     \<and> (0 \<le> hd ts \<longrightarrow>
          int (flips (at_interval n I ts) (started draws)) \<le> last ts div I)
     \<and> (0 \<le> hd ts \<and> hd ts \<le> g \<longrightarrow>
          last ts div (I + g) \<le> int (flips (at_interval n I ts) (started draws)))
     \<and> flips (at_interval 4 100 ticks_60Hz) (started draws) = 10
     \<and> flips (at_interval 4 100 ticks_996) (started draws) = 9"
proof (intro conjI impI)
  assume I: "0 < I" and g: "0 \<le> g" and sp: "spaced g ts" and ne: "ts \<noteq> []"
  have s: "sorted ts" using sp by (rule spaced_sorted)
  have b: "\<forall>t\<in>set ts. hd ts \<le> t \<and> t \<le> last ts"
    using sorted_bounds [OF s ne] .
  have hl: "hd ts \<le> last ts"
    using b ne by simp
  obtain r p where w: "w = (r, p)" by (cases w)
  have fresh: "flips (at_interval n I ts) (started draws) = flip_count I 0 ts"
    using flips_flip_count [of n I ts "fst (started draws)" "snd (started draws)"]
    by (simp add: Engine_start_renderer)
  show "int (flips (at_interval n I ts) w) \<le> (last ts - hd ts) div I + 1"
    unfolding w flips_flip_count
    using flip_count_span [OF I b hl] .
  show "(last ts - hd ts) div (I + g) \<le> int (flips (at_interval n I ts) w)"
    if "lastSwitch (fst w) \<le> hd ts"
    unfolding w flips_flip_count
    using that flip_count_from_first [OF I g sp ne, of "lastSwitch r"] by (simp add: w)
  show "int (flips (at_interval n I ts) (started draws)) \<le> last ts div I" if "0 \<le> hd ts"
  proof -
    have "int (flip_count I 0 ts) \<le> (last ts - 0) div I"
      using b that hl by (intro flip_count_fresh [OF I]) auto
    then show ?thesis by (simp add: fresh)
  qed
  show "last ts div (I + g) \<le> int (flips (at_interval n I ts) (started draws))"
    if "0 \<le> hd ts \<and> hd ts \<le> g"
    unfolding fresh using that flip_count_from_zero [OF I g sp ne] by simp
  show "flips (at_interval 4 100 ticks_60Hz) (started draws) = 10"
    by (rule scenario_60Hz_ten_flips)
  show "flips (at_interval 4 100 ticks_996) (started draws) = 9"
    by (rule scenario_996_nine_flips)
qed

theorem flips_between_spacing_bounds_witness:
  "(0::int) < 100 \<and> (0::int) \<le> 40 \<and> spaced 40 (map (\<lambda>k. 40 * int k) [0..<26])
   \<and> map (\<lambda>k. 40 * int k) [0..<26] \<noteq> []
   \<and> lastSwitch (fst (started (\<lambda>i. 0))) \<le> hd (map (\<lambda>k. 40 * int k) [0..<26])
   \<and> 0 \<le> hd (map (\<lambda>k. 40 * int k) [0..<26]) \<and> hd (map (\<lambda>k. 40 * int k) [0..<26]) \<le> 40
   \<and> last (map (\<lambda>k. 40 * int k) [0..<26]) = 1000
   \<and> 1000 div (100 + 40) \<le> int (flips (at_interval 4 100 (map (\<lambda>k. 40 * int k) [0..<26]))
          (started (\<lambda>i. 0)))
   \<and> int (flips (at_interval 4 100 (map (\<lambda>k. 40 * int k) [0..<26])) (started (\<lambda>i. 0)))
        \<le> 1000 div 100"
proof -
  have t: "spaced 40 (map (\<lambda>k. 40 * int k) [0..<26])" "map (\<lambda>k. 40 * int k) [0..<26] \<noteq> []"
    "hd (map (\<lambda>k. 40 * int k) [0..<26]) = 0" "last (map (\<lambda>k. 40 * int k) [0..<26]) = 1000"
    by (simp_all add: upt_rec)
  show ?thesis
    using flips_between_spacing_bounds
      [of 100 40 "map (\<lambda>k. 40 * int k) [0..<26]" 4 "started (\<lambda>i. 0)" "\<lambda>i. 0"]
    unfolding t by (simp add: Engine_start_renderer t)
qed

theorem flips_far_below_span_counterexample:
  "\<not> ((1000 - 0) div 100 - 1
        \<le> int (flips (at_interval 4 100 (map (\<lambda>k. 40 * int k) [0..<26])) (started (\<lambda>i. 0)))
      \<and> int (flips (at_interval 4 100 (map (\<lambda>k. 40 * int k) [0..<26])) (started (\<lambda>i. 0)))
        \<le> (1000 - 0) div 100 + 1)
   \<and> hd (map (\<lambda>k. 40 * int k) [0..<26]) = 0 \<and> last (map (\<lambda>k. 40 * int k) [0..<26]) = 1000"
proof -
  have "flip_count 100 0 (map (\<lambda>k. 40 * int k) [0..<26]) = 8"
    by (simp add: upt_rec flip_due_def)
  then have "flips (at_interval 4 100 (map (\<lambda>k. 40 * int k) [0..<26])) (started (\<lambda>i. 0)) = 8"
    using flips_flip_count [of 4 100 "map (\<lambda>k. 40 * int k) [0..<26]"
        "fst (started (\<lambda>i. 0))" "snd (started (\<lambda>i. 0))"]
    by (simp add: Engine_start_renderer)
  then show ?thesis
    by (simp add: upt_rec)
qed

subsection \<open>C4\<close>

text \<open>
  C4. Over any run the direction is 0 or 1 and every flip changes it to the other value:
  after a run from a new \<^verbatim>\<open>Renderer\<close> the direction is the parity of the number of flips,
  in both variants; one call of \<^verbatim>\<open>render\<close> turns a direction below 2 into the other one
  exactly when the flip is due, and leaves it as it is otherwise; and in every state a run
  of the class-based variant reaches, the direction of every \<^verbatim>\<open>Renderer\<close> is below 2.
\<close>

theorem direction_alternates:
  "bindGroupIndex (fst (renders ts (started draws))) = flips ts (started draws) mod 2
   \<and> bindGroupIndex1 (fst (frames1 fs (init1 draws))) = flips1 fs (init1 draws) mod 2
   \<and> (bindGroupIndex r < 2 \<longrightarrow>
        bindGroupIndex (fst (Renderer_render g T (r, p))) < 2
        \<and> bindGroupIndex (fst (Renderer_render g T (r, p))) =
            (if flip_due (COMPUTE_MS_INTERVAL g) T (lastSwitch r)
             then 1 - bindGroupIndex r else bindGroupIndex r))
   \<and> (\<forall>r'\<in>set (renderers (fst (run evs (Engine_start draws)))). bindGroupIndex r' < 2)"
proof (intro conjI impI ballI)
  show "bindGroupIndex (fst (renders ts (started draws))) = flips ts (started draws) mod 2"
    using renders_parity [of "started draws" ts] by (simp add: Engine_start_renderer)
  show "bindGroupIndex1 (fst (frames1 fs (init1 draws))) = flips1 fs (init1 draws) mod 2"
    using frames1_parity [of "init1 draws" fs] by (simp add: init1_renderer)
next
  assume "bindGroupIndex r < 2"
  then show "bindGroupIndex (fst (Renderer_render g T (r, p))) < 2" by simp
next
  assume "bindGroupIndex r < 2"
  then have "bindGroupIndex r = 0 \<or> bindGroupIndex r = 1" by auto
  then show "bindGroupIndex (fst (Renderer_render g T (r, p))) =
            (if flip_due (COMPUTE_MS_INTERVAL g) T (lastSwitch r)
             then 1 - bindGroupIndex r else bindGroupIndex r)"
    by auto
next
  fix r' assume "r' \<in> set (renderers (fst (run evs (Engine_start draws))))"
  then obtain k where "k < length (renderers (fst (run evs (Engine_start draws))))"
      "r' = renderers (fst (run evs (Engine_start draws))) ! k"
    by (auto simp: in_set_conv_nth)
  then have "session_ok k r'"
    using world_ok_reachable [of evs draws] by (simp add: world_ok_def split_def)
  then show "bindGroupIndex r' < 2"
    by (simp add: session_ok_def)
qed

theorem direction_alternates_witness:
  "bindGroupIndex (fst (renders (at_interval 64 100 [0, 100, 150, 200]) (started (\<lambda>i. 0)))) = 0
   \<and> flips (at_interval 64 100 [0, 100, 150, 200]) (started (\<lambda>i. 0)) = 2
   \<and> bindGroupIndex1 (fst (frames1 [(100, 0), (100, 100), (50, 150)] (init1 (\<lambda>i. 0)))) = 0
   \<and> flips1 [(100, 0), (100, 100), (50, 150)] (init1 (\<lambda>i. 0)) = 2
   \<and> bindGroupIndex (fst (started (\<lambda>i. 0))) < 2
   \<and> bindGroupIndex (fst (Renderer_render \<lparr>GRID_SIZE = 64, COMPUTE_MS_INTERVAL = 100\<rparr> 100
         (fst (started (\<lambda>i. 0)), snd (started (\<lambda>i. 0))))) = 1"
proof -
  have f: "flips (at_interval 64 100 [0, 100, 150, 200]) (started (\<lambda>i. 0)) = 2"
    using flips_flip_count [of 64 100 "[0, 100, 150, 200]" "fst (started (\<lambda>i. 0))" "snd (started (\<lambda>i. 0))"]
    by (simp add: Engine_start_renderer flip_due_def)
  have f1: "flips1 [(100, 0), (100, 100), (50, 150)] (init1 (\<lambda>i. 0)) = 2"
    by (simp add: flips1_Cons init1_renderer flip_due_def)
  show ?thesis
    using direction_alternates [of "at_interval 64 100 [0, 100, 150, 200]" "\<lambda>i. 0"
        "[(100, 0), (100, 100), (50, 150)]" "fst (started (\<lambda>i. 0))"
        "\<lparr>GRID_SIZE = 64, COMPUTE_MS_INTERVAL = 100\<rparr>" 100 "snd (started (\<lambda>i. 0))" "[]"]
    by (simp add: f f1 Engine_start_renderer flip_due_def)
qed

subsection \<open>C5\<close>

text \<open>
  C5, as amended. In the class-based variant \<^verbatim>\<open>init\<close> at grid size \<open>N\<close> creates exactly two
  storage buffers, each of \<open>N\<close> squared cells, and writes one array of \<open>N\<close> squared drawn
  cells to both, so that both hold the same contents; it does so before its \<^verbatim>\<open>await\<close>, and the
  \<^verbatim>\<open>Simulation\<close> it makes when it resumes, in whatever state that happens, holds these two
  buffers, resuming itself writing no buffer. Cell \<open>i\<close> is 1 exactly when the
  \<open>i\<close>-th draw of \<^verbatim>\<open>Math.random\<close> is above the fixed threshold \<^verbatim>\<open>0.6\<close>, a range of draws of
  length two fifths up to the rounding of the literal. In the earlier variant two
  storage buffers are created as well, but the drawn array is written to the first only
  and the second keeps the zeros it was created with.
\<close>

theorem session_init_fills_both:
  "(let (a', p') = Engine_init n (a, p);
        l = last (awaiting a');
        cells = cells_of (rng p) (n * n);
        A = next_buffer p + 3;
        B = next_buffer p + 4;
        usage = GPUBufferUsage_STORAGE OR GPUBufferUsage_COPY_DST
    in awaiting a' = awaiting a @ [l]
       \<and> map_option stateBuffers (engine_simulation (fst (Engine_init_resumed l w))) = Some [A, B]
       \<and> device_state K (snd (Engine_init_resumed l w)) = device_state K (snd w)
       \<and> filter is_storage_create (drop (length (calls p)) (calls p'))
           = [CreateBuffer A ''State A'' (4 * (n * n)) usage,
              CreateBuffer B ''State B'' (4 * (n * n)) usage]
       \<and> device_state K p' A = Some cells \<and> device_state K p' B = Some cells
       \<and> length cells = n * n
       \<and> (\<forall>i<n * n. cells ! i = (if rng p i > double_0_6 then U32 1 else U32 0)))
   \<and> (let p1 = snd (init1 draws);
           usage = GPUBufferUsage_STORAGE OR GPUBufferUsage_COPY_DST
       in filter is_storage_create (calls p1)
            = [CreateBuffer 2 ''Cell State A'' (4 * (GRID_SIZE1 * GRID_SIZE1)) usage,
               CreateBuffer 3 ''Cell State B'' (4 * (GRID_SIZE1 * GRID_SIZE1)) usage]
          \<and> device_state K p1 2 = Some (cells_of draws (GRID_SIZE1 * GRID_SIZE1))
          \<and> device_state K p1 3 = Some (replicate (GRID_SIZE1 * GRID_SIZE1) (U32 0)))
   \<and> \<bar>(1 - double_0_6) - 2 / 5\<bar> < 1 / 10 ^ 16"
proof (intro conjI)
  show "let (a', p') = Engine_init n (a, p);
        l = last (awaiting a');
        cells = cells_of (rng p) (n * n);
        A = next_buffer p + 3;
        B = next_buffer p + 4;
        usage = GPUBufferUsage_STORAGE OR GPUBufferUsage_COPY_DST
    in awaiting a' = awaiting a @ [l]
       \<and> map_option stateBuffers (engine_simulation (fst (Engine_init_resumed l w))) = Some [A, B]
       \<and> device_state K (snd (Engine_init_resumed l w)) = device_state K (snd w)
       \<and> filter is_storage_create (drop (length (calls p)) (calls p'))
           = [CreateBuffer A ''State A'' (4 * (n * n)) usage,
              CreateBuffer B ''State B'' (4 * (n * n)) usage]
       \<and> device_state K p' A = Some cells \<and> device_state K p' B = Some cells
       \<and> length cells = n * n
       \<and> (\<forall>i<n * n. cells ! i = (if rng p i > double_0_6 then U32 1 else U32 0))"
    unfolding Engine_init_eq Let_def split_conv
    by (cases w)
       (simp add: Engine_init_resumed_eq session_calls_def device_state_def device_run_append
        device_run_Cons zeroed_def cells_of_nth random_cell_def usage_defs)
  show "let p1 = snd (init1 draws);
           usage = GPUBufferUsage_STORAGE OR GPUBufferUsage_COPY_DST
       in filter is_storage_create (calls p1)
            = [CreateBuffer 2 ''Cell State A'' (4 * (GRID_SIZE1 * GRID_SIZE1)) usage,
               CreateBuffer 3 ''Cell State B'' (4 * (GRID_SIZE1 * GRID_SIZE1)) usage]
          \<and> device_state K p1 2 = Some (cells_of draws (GRID_SIZE1 * GRID_SIZE1))
          \<and> device_state K p1 3 = Some (replicate (GRID_SIZE1 * GRID_SIZE1) (U32 0))"
    unfolding Let_def device_state_init1 by (simp add: init1_eq usage_defs)
  show "\<bar>(1 - double_0_6) - 2 / 5\<bar> < 1 / 10 ^ 16"
    by (rule threshold_near_two_fifths)
qed

theorem session_init_fills_both_witness:
  "device_state (\<lambda>v x y b i. U32 0)
     (snd (Engine_init 2 (module_init, platform_init (\<lambda>i. if even i then 3 / 4 else 1 / 4)))) 3
     = Some [U32 1, U32 0, U32 1, U32 0]
   \<and> device_state (\<lambda>v x y b i. U32 0)
     (snd (Engine_init 2 (module_init, platform_init (\<lambda>i. if even i then 3 / 4 else 1 / 4)))) 4
     = Some [U32 1, U32 0, U32 1, U32 0]"
  using session_init_fills_both [where n = 2 and a = module_init
      and p = "platform_init (\<lambda>i. if even i then 3 / 4 else 1 / 4)"
      and K = "\<lambda>v x y b i. U32 0" and draws = "\<lambda>i. 0"]
  by (simp add: split_def Let_def cells_of_def platform_init_def random_cell_def double_0_6_def
      upt_rec)

theorem second_buffer_stays_zero_counterexample:
  "device_state (\<lambda>v x y b i. U32 0) (snd (init1 (\<lambda>i. 3 / 4))) 3
     \<noteq> device_state (\<lambda>v x y b i. U32 0) (snd (init1 (\<lambda>i. 3 / 4))) 2"
  by (simp add: device_state_init1 cells_of_const random_cell_def double_0_6_def GRID_SIZE1_def)

subsection \<open>C6\<close>

text \<open>
  C6. For every positive grid size \<open>N\<close> the compute pass of a tick is dispatched with
  \<open>\<lceil>N / 8\<rceil>\<close> workgroups in each of the two dimensions, in the class-based variant for
  the current value of \<^verbatim>\<open>GRID_SIZE\<close> and in the earlier variant for its constant 64. With
  tiles of 8 by 8 cells (the size the spec gives for the shader, which is not among the
  sources) every cell of the \<open>N\<close> by \<open>N\<close> grid lies in a dispatched tile, and one workgroup
  fewer would not reach the last row and column.
\<close>

theorem dispatch_covers_grid:
  "0 < GRID_SIZE g \<Longrightarrow>
     (let N = GRID_SIZE g; w = Math_ceil (of_nat N / 8)
      in map dispatch_of (the (last_submit (calls (snd (Renderer_render g T (r, p))))))
           = [Some (w, w), None]
         \<and> map dispatch_of (the (last_submit (calls (snd (Renderer1_render I T (r1, p))))))
           = [Some (Math_ceil (of_nat GRID_SIZE1 / 8), Math_ceil (of_nat GRID_SIZE1 / 8)), None]
         \<and> w = (N + 7) div 8
         \<and> (\<forall>x<N. \<forall>y<N. \<exists>wx<w. \<exists>wy<w. \<exists>lx<workgroup_size. \<exists>ly<workgroup_size.
               x = wx * workgroup_size + lx \<and> y = wy * workgroup_size + ly)
         \<and> (w - 1) * workgroup_size < N
         \<and> Math_ceil (of_nat GRID_SIZE1 / 8) * workgroup_size = GRID_SIZE1)"
proof -
  assume pos: "0 < GRID_SIZE g"
  let ?N = "GRID_SIZE g"
  let ?w = "(?N + 7) div 8"
  have cover: "\<exists>wx<?w. \<exists>wy<?w. \<exists>lx<8. \<exists>ly<8. x = wx * 8 + lx \<and> y = wy * 8 + ly"
    if "x < ?N" "y < ?N" for x y
    using tile_cover [OF that(1)] tile_cover [OF that(2)] by blast
  have tight: "(?w - 1) * 8 < ?N"
    using pos by linarith
  have fixed: "Math_ceil (of_nat GRID_SIZE1 / 8) * 8 = GRID_SIZE1"
    by (simp add: Math_ceil_def GRID_SIZE1_def)
  show ?thesis
    using cover tight fixed
    by (simp add: Let_def render_last_submit render1_last_submit compute_cmd_def render_cmd_def
        Math_ceil_div8 workgroup_size_def del: Renderer_render_fields)
qed

theorem dispatch_covers_grid_witness:
  "0 < GRID_SIZE \<lparr>GRID_SIZE = 20, COMPUTE_MS_INTERVAL = 100\<rparr>
   \<and> map dispatch_of (the (last_submit (calls (snd
         (Renderer_render \<lparr>GRID_SIZE = 20, COMPUTE_MS_INTERVAL = 100\<rparr> 100
            (fst (started (\<lambda>i. 0)), snd (started (\<lambda>i. 0)))))))) = [Some (3, 3), None]
   \<and> (3 - 1) * workgroup_size < (20::nat)"
  using dispatch_covers_grid [of "\<lparr>GRID_SIZE = 20, COMPUTE_MS_INTERVAL = 100\<rparr>" 100
      "fst (started (\<lambda>i. 0))" "snd (started (\<lambda>i. 0))" 100 "fst (init1 (\<lambda>i. 0))"]
  by (simp add: Let_def Math_ceil_def workgroup_size_def)

subsection \<open>C7\<close>

text \<open>
  C7. In both variants the layout makes the time uniform (binding 1) visible to the
  fragment stage only, and every call of \<^verbatim>\<open>render\<close> writes it exactly once. Whatever the
  compute shader is, it reads only what is visible to the compute stage: in any run, a
  second run of the same calls that differs only in the values written to the time
  uniforms leaves every other buffer, the state buffers among them, with the same
  contents.
\<close>

theorem time_uniform_reaches_render_only:
  "map visibility (filter (\<lambda>e. binding e = 1) (bgl_entries PipelineFactory_createBindGroupLayout))
     = [GPUShaderStage_FRAGMENT]
   \<and> map visibility (filter (\<lambda>e. binding e = 1) (bgl_entries createBindGroupLayout))
     = [GPUShaderStage_FRAGMENT]
   \<and> GPUShaderStage_FRAGMENT AND GPUShaderStage_COMPUTE = 0
   \<and> filter (is_write_to (timeBuffer r))
        (drop (length (calls p)) (calls (snd (Renderer_render g T (r, p)))))
     = [WriteBuffer (timeBuffer r) 0 [F32 (of_int T / 1000)]]
   \<and> filter (is_write_to (timeBuffer1 r1))
        (drop (length (calls p)) (calls (snd (Renderer1_render I T (r1, p)))))
     = [WriteBuffer (timeBuffer1 r1) 0 [F32 (of_int T / 1000)]]
   \<and> (let (a, q) = run evs (Engine_start draws);
           TB = timeBuffer ` set (renderers a)
       in \<forall>tr'. list_all2 (time_variant TB) (calls q) tr' \<longrightarrow>
            (\<forall>i. i \<notin> TB \<longrightarrow> device_run K tr' (\<lambda>i. None) i = device_state K q i))
   \<and> (let (r2, q) = frames1 fs (init1 draws)
       in \<forall>tr'. list_all2 (time_variant {timeBuffer1 r2}) (calls q) tr' \<longrightarrow>
            (\<forall>i. i \<noteq> timeBuffer1 r2 \<longrightarrow> device_run K tr' (\<lambda>i. None) i = device_state K q i))"
proof (intro conjI)
  show "map visibility (filter (\<lambda>e. binding e = 1) (bgl_entries PipelineFactory_createBindGroupLayout))
     = [GPUShaderStage_FRAGMENT]"
    by (simp add: PipelineFactory_createBindGroupLayout_def stage_defs)
  show "map visibility (filter (\<lambda>e. binding e = 1) (bgl_entries createBindGroupLayout))
     = [GPUShaderStage_FRAGMENT]"
    by (simp add: createBindGroupLayout_def)
  show "GPUShaderStage_FRAGMENT AND GPUShaderStage_COMPUTE = 0"
    by (simp add: stage_defs)
  show "filter (is_write_to (timeBuffer r))
        (drop (length (calls p)) (calls (snd (Renderer_render g T (r, p)))))
     = [WriteBuffer (timeBuffer r) 0 [F32 (of_int T / 1000)]]"
    by (simp add: render_calls compute_cmd_def render_cmd_def)
  show "filter (is_write_to (timeBuffer1 r1))
        (drop (length (calls p)) (calls (snd (Renderer1_render I T (r1, p)))))
     = [WriteBuffer (timeBuffer1 r1) 0 [F32 (of_int T / 1000)]]"
    by (simp add: Renderer1_render_platform Let_def)
next
  obtain a q where w: "run evs (Engine_start draws) = (a, q)"
    by (cases "run evs (Engine_start draws)")
  have "world_ok (a, q)"
    using world_ok_reachable [of evs draws] by (simp add: w)
  then have bl: "trace_blind (timeBuffer ` set (renderers a)) (calls q)"
    by (rule reachable_blind)
  have "device_run K tr' (\<lambda>i. None) i = device_state K q i"
    if "list_all2 (time_variant (timeBuffer ` set (renderers a))) (calls q) tr'"
      and "i \<notin> timeBuffer ` set (renderers a)" for tr' i
    using device_run_agree [OF that(1) bl, of "\<lambda>i. None" "\<lambda>i. None" K] that(2)
    by (simp add: agree_off_def device_state_def)
  then show "let (a, q) = run evs (Engine_start draws);
           TB = timeBuffer ` set (renderers a)
       in \<forall>tr'. list_all2 (time_variant TB) (calls q) tr' \<longrightarrow>
            (\<forall>i. i \<notin> TB \<longrightarrow> device_run K tr' (\<lambda>i. None) i = device_state K q i)"
    by (simp add: w)
next
  obtain r2 q where w: "frames1 fs (init1 draws) = (r2, q)"
    by (cases "frames1 fs (init1 draws)")
  have bl: "trace_blind {timeBuffer1 r2} (calls q)"
    using frames1_blind [of fs draws] by (simp add: w)
  have "device_run K tr' (\<lambda>i. None) i = device_state K q i"
    if "list_all2 (time_variant {timeBuffer1 r2}) (calls q) tr'" and "i \<noteq> timeBuffer1 r2" for tr' i
    using device_run_agree [OF that(1) bl, of "\<lambda>i. None" "\<lambda>i. None" K] that(2)
    by (simp add: agree_off_def device_state_def)
  then show "let (r2, q) = frames1 fs (init1 draws)
       in \<forall>tr'. list_all2 (time_variant {timeBuffer1 r2}) (calls q) tr' \<longrightarrow>
            (\<forall>i. i \<noteq> timeBuffer1 r2 \<longrightarrow> device_run K tr' (\<lambda>i. None) i = device_state K q i)"
    by (simp add: w)
qed

theorem time_uniform_reaches_render_only_witness:
  "device_run (\<lambda>view x y b i. case view 1 of Some [v] \<Rightarrow> v | _ \<Rightarrow> U32 7)
     (map (retime {1} (F32 0)) (calls (snd (run [InitResumes, AnimationFrame 100] (Engine_start (\<lambda>i. 0))))))
     (\<lambda>i. None) 3
   = device_state (\<lambda>view x y b i. case view 1 of Some [v] \<Rightarrow> v | _ \<Rightarrow> U32 7)
       (snd (run [InitResumes, AnimationFrame 100] (Engine_start (\<lambda>i. 0)))) 3"
proof -
  let ?W = "run [InitResumes, AnimationFrame 100] (Engine_start (\<lambda>i. 0))"
  have tb: "timeBuffer ` set (renderers (fst ?W)) = {1}"
    by (rule first_frame_time_buffers)
  have v: "list_all2 (time_variant {1}) (calls (snd ?W)) (map (retime {1} (F32 0)) (calls (snd ?W)))"
    by (rule retime_variant)
  show ?thesis
    using time_uniform_reaches_render_only [of "fst (started (\<lambda>i. 0))" "snd (started (\<lambda>i. 0))"
        "\<lparr>GRID_SIZE = 64, COMPUTE_MS_INTERVAL = 100\<rparr>" 100 "fst (init1 (\<lambda>i. 0))" 100
        "[InitResumes, AnimationFrame 100]" "\<lambda>i. 0" "\<lambda>view x y b i. case view 1 of Some [v] \<Rightarrow> v | _ \<Rightarrow> U32 7" "[]"]
      v tb
    by (simp add: split_def Let_def)
qed

subsection \<open>C8\<close>

text \<open>
  C8, at the input where the code departs from it. \<^verbatim>\<open>Engine.start\<close> calls \<^verbatim>\<open>init\<close> without
  awaiting it and registers the handler of the reset button right after, so a click can
  arrive while that call waits for the shader imports. \<^verbatim>\<open>this.simulation\<close> is then still
  \<^verbatim>\<open>undefined\<close>: the handler raises a \<^verbatim>\<open>TypeError\<close>, no cell is drawn and nothing is written, and
  the two state buffers, which that call has created and filled already, keep the initial
  draw. Once no call of \<^verbatim>\<open>init\<close> waits, a reset does all that C8 says
  (lemma \<open>reset_when_no_init_waits\<close>).
\<close>

theorem reset_before_init_resumes_writes_nothing:
  "(let (a, p) = Engine_start draws;
        (a', p') = handle ResetClick (a, p)
    in GRID_SIZE a = 64 \<and> engine_simulation a = None \<and> awaiting a \<noteq> []
       \<and> device_state K p 3 = Some (cells_of draws (64 * 64))
       \<and> device_state K p 4 = Some (cells_of draws (64 * 64))
       \<and> a' = a \<and> p' = p)"
  by (simp add: Engine_start_eq module_init_def device_state_def device_run_session_calls)

subsection \<open>C9\<close>

text \<open>
  C9, as amended. A grid-size change to \<open>N\<close> first runs \<^verbatim>\<open>stopRendering\<close>, which cancels the
  frame request whose id the \<^verbatim>\<open>Engine\<close> holds, if it holds one, and forgets the id: that
  request waits no longer. It then sets \<^verbatim>\<open>GRID_SIZE\<close> to \<open>N\<close> and calls \<^verbatim>\<open>init\<close>, which before
  its \<^verbatim>\<open>await\<close> creates five new buffers for the new size, both new state buffers holding one
  new draw of \<open>N\<close> squared cells; the \<^verbatim>\<open>Engine\<close> keeps the \<^verbatim>\<open>Simulation\<close> and the \<^verbatim>\<open>Renderer\<close> it
  held until that call resumes. When it resumes, in whatever state \<open>(a', p')\<close>, a new
  \<^verbatim>\<open>Simulation\<close> and a new \<^verbatim>\<open>Renderer\<close> over the new buffers replace the ones the \<^verbatim>\<open>Engine\<close>
  held, a first frame is requested for the new \<^verbatim>\<open>Renderer\<close> and the \<^verbatim>\<open>Engine\<close> stores its id.
  The buffers of the earlier sessions are not released: they keep their contents. The new
  \<^verbatim>\<open>Renderer\<close> starts with direction 0 and with the time of the last flip and the frame
  counters at 0, not at the time of the request.
\<close>

theorem resize_cancels_stored_request_and_starts_session:
  "(let (a1, p1) = handle (GridSizeInput n) (a, p);
        b = next_buffer p;
        cells = cells_of (rng p) (n * n);
        l = last (awaiting a1);
        (a2, p2) = Engine_init_resumed l (a', p');
        k = length (renderers a');
        r = last (renderers a2)
    in calls p1 = calls p
           @ (case animationFrameId a of Some i \<Rightarrow> [CancelAnimationFrame i] | None \<Rightarrow> [])
           @ session_calls n b cells
       \<and> raf_pending p1 = filter (\<lambda>(j, ref). Some j \<noteq> animationFrameId a) (raf_pending p)
       \<and> animationFrameId a1 = None
       \<and> GRID_SIZE a1 = n \<and> COMPUTE_MS_INTERVAL a1 = COMPUTE_MS_INTERVAL a
       \<and> renderers a1 = renderers a \<and> engine_simulation a1 = engine_simulation a
       \<and> engine_renderer a1 = engine_renderer a
       \<and> awaiting a1 = awaiting a @ [l] \<and> il_stateBuffers l = [b + 3, b + 4]
       \<and> next_buffer p1 = b + 5 \<and> raf_next p1 = raf_next p
       \<and> device_state K p1 (b + 3) = Some cells \<and> device_state K p1 (b + 4) = Some cells
       \<and> length cells = n * n
       \<and> (\<forall>i<b. device_state K p1 i = device_state K p i)
       \<and> a2 = a'\<lparr>engine_simulation := Some (simulation r), engine_renderer := Some k,
                  animationFrameId := Some (raf_next p'), renderers := renderers a' @ [r]\<rparr>
       \<and> calls p2 = calls p' @ [RequestAnimationFrame (raf_next p') k]
       \<and> raf_pending p2 = raf_pending p' @ [(raf_next p', k)]
       \<and> next_buffer p2 = next_buffer p'
       \<and> r = session_renderer k b
       \<and> self r = k \<and> bindGroupIndex r = 0 \<and> lastSwitch r = 0 \<and> lastFrame r = 0
       \<and> frameCount r = 0 \<and> fps r = 0 \<and> timeBuffer r = b + 1 \<and> vertexBuffer r = b + 2
       \<and> stateBuffers (simulation r) = [b + 3, b + 4]
       \<and> map (\<lambda>g. map snd (bg_entries g)) (bindGroups (simulation r))
           = [[Some b, Some (b + 1), Some (b + 3), Some (b + 4)],
              [Some b, Some (b + 1), Some (b + 4), Some (b + 3)]])"
proof -
  obtain a1 p1 where h: "handle (GridSizeInput n) (a, p) = (a1, p1)"
    by (cases "handle (GridSizeInput n) (a, p)")
  have a1: "a1 = (fst (Engine_stopRendering (a, p)))
        \<lparr>GRID_SIZE := n, awaiting := awaiting a @ [session_locals n (next_buffer p)]\<rparr>"
    and p1: "p1 = (snd (Engine_stopRendering (a, p)))
        \<lparr>next_buffer := next_buffer p + 5,
         rng := (\<lambda>i. rng p (i + n * n)),
         calls := calls p
           @ (case animationFrameId a of Some i \<Rightarrow> [CancelAnimationFrame i] | None \<Rightarrow> [])
           @ session_calls n (next_buffer p) (cells_of (rng p) (n * n))\<rparr>"
    using resize_eq [of n a p] by (simp_all add: h del: handle.simps)
  have d: "device_state K p1 =
     (device_state K p)
       (next_buffer p \<mapsto> [F32 (of_nat n), F32 (of_nat n)],
        next_buffer p + 1 \<mapsto> [U32 0], next_buffer p + 2 \<mapsto> cell_vertices,
        next_buffer p + 3 \<mapsto> cells_of (rng p) (n * n),
        next_buffer p + 4 \<mapsto> cells_of (rng p) (n * n))"
    using resize_device [of K n a p] by (simp add: h del: handle.simps)
  have fa: "animationFrameId a1 = None" "GRID_SIZE a1 = n"
      "COMPUTE_MS_INTERVAL a1 = COMPUTE_MS_INTERVAL a" "renderers a1 = renderers a"
      "engine_simulation a1 = engine_simulation a" "engine_renderer a1 = engine_renderer a"
      "awaiting a1 = awaiting a @ [session_locals n (next_buffer p)]"
    unfolding a1 by (simp_all add: stopRendering_static)
  have fp: "calls p1 = calls p
           @ (case animationFrameId a of Some i \<Rightarrow> [CancelAnimationFrame i] | None \<Rightarrow> [])
           @ session_calls n (next_buffer p) (cells_of (rng p) (n * n))"
      "raf_pending p1 = filter (\<lambda>(j, ref). Some j \<noteq> animationFrameId a) (raf_pending p)"
      "next_buffer p1 = next_buffer p + 5" "raf_next p1 = raf_next p"
    unfolding p1 by (simp_all add: stopRendering_static stopRendering_platform)
  show ?thesis
    unfolding h Let_def split_conv fa fp d last_snoc Engine_init_resumed_eq
    by (simp add: session_locals_def session_renderer_def Renderer_new_def session_bindGroups)
qed

theorem resize_cancels_stored_request_and_starts_session_witness:
  "raf_pending (snd (run [InitResumes] (Engine_start (\<lambda>i. 3 / 4)))) = [(1, 0)]
   \<and> raf_pending (snd (run [InitResumes, GridSizeInput 32] (Engine_start (\<lambda>i. 3 / 4)))) = []
   \<and> CancelAnimationFrame 1
        \<in> set (calls (snd (run [InitResumes, GridSizeInput 32] (Engine_start (\<lambda>i. 3 / 4)))))
   \<and> raf_pending (snd (run [InitResumes, GridSizeInput 32, InitResumes] (Engine_start (\<lambda>i. 3 / 4))))
       = [(2, 1)]
   \<and> GRID_SIZE (fst (run [InitResumes, GridSizeInput 32, InitResumes] (Engine_start (\<lambda>i. 3 / 4))))
       = 32
   \<and> device_state (\<lambda>view x y b i. U32 0)
        (snd (run [InitResumes, GridSizeInput 32] (Engine_start (\<lambda>i. 3 / 4)))) 8
       = Some (replicate 1024 (U32 1))
   \<and> device_state (\<lambda>view x y b i. U32 0)
        (snd (run [InitResumes, GridSizeInput 32] (Engine_start (\<lambda>i. 3 / 4)))) 3
       = Some (replicate 4096 (U32 1))"
proof -
  let ?d = "\<lambda>i::nat. 3 / 4 :: rat"
  let ?A1 = "module_init\<lparr>engine_simulation := Some (session_sim 0), engine_renderer := Some 0,
        animationFrameId := Some 1, renderers := [session_renderer 0 0]\<rparr>"
  let ?P1 = "\<lparr>next_buffer = 5, raf_pending = [(1, 0)], raf_next = 2,
       rng = (\<lambda>i. ?d (i + 64 * 64)),
       calls = session_calls 64 0 (cells_of ?d (64 * 64)) @ [RequestAnimationFrame 1 0]\<rparr>"
  let ?A2 = "module_init\<lparr>GRID_SIZE := 32, engine_simulation := Some (session_sim 0),
        engine_renderer := Some 0, animationFrameId := None,
        renderers := [session_renderer 0 0], awaiting := [session_locals 32 5]\<rparr>"
  let ?P2 = "\<lparr>next_buffer = 10, raf_pending = [], raf_next = 2,
       rng = (\<lambda>i. ?d (i + 64 * 64 + 32 * 32)),
       calls = session_calls 64 0 (cells_of ?d (64 * 64))
         @ [RequestAnimationFrame 1 0, CancelAnimationFrame 1]
         @ session_calls 32 5 (cells_of (\<lambda>i. ?d (i + 64 * 64)) (32 * 32))\<rparr>"
  have h1: "handle InitResumes (Engine_start ?d) = (?A1, ?P1)"
    by (rule first_session_eq)
  have h2: "handle (GridSizeInput 32) (?A1, ?P1) = (?A2, ?P2)"
    using resize_before_first_frame [of ?d] unfolding run_two h1 .
  have h3: "handle InitResumes (?A2, ?P2)
      = Engine_init_resumed (session_locals 32 5) (?A2\<lparr>awaiting := []\<rparr>, ?P2)"
    by (simp add: module_init_def)
  have r1: "run [InitResumes] (Engine_start ?d) = (?A1, ?P1)"
    unfolding run_def using h1 by simp
  have r2: "run [InitResumes, GridSizeInput 32] (Engine_start ?d) = (?A2, ?P2)"
    unfolding run_two h1 h2 ..
  have r3: "run [InitResumes, GridSizeInput 32, InitResumes] (Engine_start ?d)
      = Engine_init_resumed (session_locals 32 5) (?A2\<lparr>awaiting := []\<rparr>, ?P2)"
    unfolding run_three h1 h2 h3 ..
  have d3: "device_state (\<lambda>view x y b i. U32 0) ?P1 3 = Some (replicate 4096 (U32 1))"
    by (simp add: device_state_def device_run_append device_run_session_calls device_run_Cons
        cells_of_const random_cell_def double_0_6_def)
  show ?thesis
    unfolding r1 r2 r3
    using resize_cancels_stored_request_and_starts_session
      [of 32 ?A1 ?P1 "?A2\<lparr>awaiting := []\<rparr>" ?P2 "\<lambda>view x y b i. U32 0"]
    unfolding h2 Let_def split_conv
    by (simp add: d3 cells_of_const random_cell_def double_0_6_def module_init_def
        Engine_init_resumed_eq split_def device_state_def device_run_append
        device_run_session_calls device_run_Cons)
qed

theorem resize_keeps_buffers_and_zero_counters_counterexample:
  "\<not> (device_state (\<lambda>view x y b i. U32 0)
         (snd (run [InitResumes, GridSizeInput 32, InitResumes] (Engine_start (\<lambda>i. 3 / 4)))) 3 = None
       \<or> 0 < lastSwitch (last (renderers
            (fst (run [InitResumes, GridSizeInput 32, InitResumes] (Engine_start (\<lambda>i. 3 / 4))))))
       \<or> 0 < lastFrame (last (renderers
            (fst (run [InitResumes, GridSizeInput 32, InitResumes] (Engine_start (\<lambda>i. 3 / 4)))))))"
  unfolding run_three run_two [symmetric] resize_before_first_frame
  by (simp add: Engine_init_resumed_eq session_renderer_def Renderer_new_def device_state_def
      device_run_append device_run_session_calls device_run_Cons)

subsection \<open>C10\<close>

text \<open>
  C10, at an input where the code departs from it. A grid-size change to 32 sets
  \<^verbatim>\<open>GRID_SIZE\<close> and calls \<^verbatim>\<open>init\<close>, which waits for the shader imports; until it resumes the
  \<^verbatim>\<open>Engine\<close> holds the \<^verbatim>\<open>Simulation\<close> of the session of 64 by 64 cells. A reset in between
  draws 32 squared cells and writes them over the first 1024 cells of each of the two
  buffers of 4096 cells. The cells after these stay as they were, so that the two buffers
  differ as soon as a compute pass has changed one of those cells: with a compute shader
  that writes 7 to every cell, after the frame at 100 ms state buffer A ends in 7s and
  state buffer B in the initial draw. Once no call of \<^verbatim>\<open>init\<close> waits, the two buffers are
  equal after a reset (lemma \<open>reset_when_no_init_waits\<close>).
\<close>

theorem reset_while_init_waits_leaves_buffers_unequal:
  "(let (a, p) = run [InitResumes, AnimationFrame 100, GridSizeInput 32] (Engine_start draws);
        (a', p') = handle ResetClick (a, p);
        cells = cells_of (rng p) (32 * 32)
    in GRID_SIZE a = 32 \<and> awaiting a \<noteq> []
       \<and> map_option stateBuffers (engine_simulation a) = Some [3, 4]
       \<and> calls p' = calls p @ [WriteBuffer 3 0 cells, WriteBuffer 4 0 cells]
       \<and> map_option length (device_state K p' 3) = Some (64 * 64)
       \<and> map_option length (device_state K p' 4) = Some (64 * 64)
       \<and> map_option (drop (32 * 32)) (device_state K p' 3)
           = map_option (drop (32 * 32)) (device_state K p 3)
       \<and> map_option (drop (32 * 32)) (device_state K p' 4)
           = map_option (drop (32 * 32)) (device_state K p 4)
       \<and> device_state (\<lambda>view x y b i. U32 7) p' 3 \<noteq> device_state (\<lambda>view x y b i. U32 7) p' 4)"
proof -
  obtain a p where w: "run [InitResumes, AnimationFrame 100, GridSizeInput 32] (Engine_start draws) = (a, p)"
    by (cases "run [InitResumes, AnimationFrame 100, GridSizeInput 32] (Engine_start draws)")
  have g: "GRID_SIZE a = 32" and sim: "engine_simulation a = Some (session_sim 0)"
    and aw: "awaiting a = [session_locals 32 5]"
    using resize_window(1-3) [where draws = draws] by (simp_all add: w)
  have o4: "device_state K p (0 + 4) = Some (cells_of draws 4096)" for K
    using resize_window(5) [where K = K and draws = draws] by (simp add: w)
  have o3: "\<exists>view. device_state K p (0 + 3) = Some (map (K view 8 8 3) [0..<4096])" for K
    using resize_window(4) [where K = K and draws = draws] by (simp add: w)
  have part: "device_state K (snd (handle ResetClick (a, p))) 3
        = Some (cells_of (rng p) 1024 @ drop 1024 old)"
      "device_state K (snd (handle ResetClick (a, p))) 4
        = Some (cells_of (rng p) 1024 @ drop 1024 (cells_of draws 4096))"
    if "device_state K p (0 + 3) = Some old" "length old = 4096" for K old
    using reset_partial [OF sim that(1) o4 [of K]] that(2) by (simp_all add: g)
  have c: "calls (snd (handle ResetClick (a, p)))
      = calls p @ [WriteBuffer 3 0 (cells_of (rng p) 1024), WriteBuffer 4 0 (cells_of (rng p) 1024)]"
    by (simp add: sim Simulation_reset_eq g)
  obtain view where v: "device_state K p (0 + 3) = Some (map (K view 8 8 3) [0..<4096])"
    using o3 [of K] by blast
  have len: "length (map f [0..<4096]) = 4096" for f :: "nat \<Rightarrow> val"
    by simp
  note pk = part [OF v len]
  obtain view7 where v7: "device_state (\<lambda>view x y b i. U32 7) p (0 + 3)
      = Some (map (\<lambda>i. U32 7) [0..<4096])"
    using o3 [of "\<lambda>view x y b i. U32 7"] by blast
  note p7 = part [OF v7 len]
  have ne: "device_state (\<lambda>view x y b i. U32 7) (snd (handle ResetClick (a, p))) 3
      \<noteq> device_state (\<lambda>view x y b i. U32 7) (snd (handle ResetClick (a, p))) 4"
  proof
    assume "device_state (\<lambda>view x y b i. U32 7) (snd (handle ResetClick (a, p))) 3
      = device_state (\<lambda>view x y b i. U32 7) (snd (handle ResetClick (a, p))) 4"
    then have "drop 1024 (map (\<lambda>i. U32 7) [0..<4096]) = drop 1024 (cells_of draws 4096)"
      unfolding p7 by simp
    then have "drop 1024 (map (\<lambda>i. U32 7) [0..<4096]) ! 0 = drop 1024 (cells_of draws 4096) ! 0"
      by simp
    then have "U32 7 = random_cell (draws 1024)"
      by (simp add: cells_of_nth)
    then show False
      by (simp add: random_cell_def split: if_splits)
  qed
  show ?thesis
    unfolding w Let_def split_conv
    using ne o4 [of K] v
    by (simp add: g sim aw c pk split_def del: handle.simps)
qed

end
